theory Spec2Isabelle
  imports Main "HOL-Library.AList"
begin

section \<open>The office import pipeline of the GreatSoft implementation server\<close>

text \<open>
  A shallow embedding of the class \<open>GreatSoftImplementation\<close>: the row normalizer
  \<open>mapExcelToSQL\<close>, the validator \<open>validateOfficeData\<close> and the orchestrator
  \<open>importOffices\<close> with its three stages (critical-error gate, code reconciliation,
  per-record insert).

  The spreadsheet reader, the SQL client and the UUID source are outside the
  repository; they appear as parameters: the outcome of \<open>sql.connect\<close>, the outcome
  of \<open>readExcelFile\<close> and the function that performs one insert on the store.
\<close>

subsection \<open>Cell values\<close>

text \<open>
  The rows are typed \<open>any\<close> in the source. A cell is \<open>null\<close> (an empty cell, the
  reader is called with \<open>defval: null\<close>), \<open>undefined\<close> (a property the row object does
  not have), a string, a number or a boolean. Numbers are the integer-valued ones.
  A JavaScript string is a sequence of UTF-16 code units; the strings here are the
  ones whose code units are below 256 (ASCII and the Latin-1 supplement), one
  \<open>char\<close> for one code unit. Date cells are left out.
\<close>

datatype cell = Null | Undefined | Str string | Num int | Bool bool

text \<open>JavaScript's truthiness, as \<open>!x\<close>, \<open>x && y\<close> and \<open>filter(Boolean)\<close> use it.\<close>

fun truthy :: "cell \<Rightarrow> bool" where
  "truthy Null = False"
| "truthy Undefined = False"
| "truthy (Str s) = (s \<noteq> [])"
| "truthy (Num n) = (n \<noteq> 0)"
| "truthy (Bool b) = b"

text \<open>\<open>Number.prototype.toString\<close> on a non-negative integer: its decimal digits.\<close>

definition digit_char :: "nat \<Rightarrow> char" where
  "digit_char d = char_of (48 + d)"

fun toString :: "nat \<Rightarrow> string" where
  "toString n = (if n < 10 then [digit_char n] else toString (n div 10) @ [digit_char (n mod 10)])"

declare toString.simps [simp del]

text \<open>The string a template literal \<open>`${x}`\<close> puts in for a cell.\<close>

fun cellToString :: "cell \<Rightarrow> string" where
  "cellToString Null = ''null''"
| "cellToString Undefined = ''undefined''"
| "cellToString (Str s) = s"
| "cellToString (Num n) = (if n < 0 then ''-'' @ toString (nat (- n)) else toString (nat n))"
| "cellToString (Bool b) = (if b then ''true'' else ''false'')"

text \<open>
  \<open>x.length\<close> of a truthy cell: the length of a string, \<open>undefined\<close> (here \<open>None\<close>) on
  a number or a boolean, and \<open>undefined > n\<close> is false.
\<close>

fun jsLength :: "cell \<Rightarrow> nat option" where
  "jsLength (Str s) = Some (length s)"
| "jsLength _ = None"

definition lengthExceeds :: "cell \<Rightarrow> nat \<Rightarrow> bool" where
  "lengthExceeds c n = (case jsLength c of None \<Rightarrow> False | Some l \<Rightarrow> n < l)"

text \<open>\<open>String.prototype.includes\<close>: the second string occurs somewhere in the first.\<close>

fun str_includes :: "string \<Rightarrow> string \<Rightarrow> bool" where
  "str_includes [] sub = (sub = [])"
| "str_includes (c # cs) sub = (take (length sub) (c # cs) = sub \<or> str_includes cs sub)"

subsection \<open>Rows, errors and results\<close>

text \<open>
  A row object is a property bag: reading a property it does not have gives
  \<open>undefined\<close>. An office record is the same kind of object, with the SQL column names.
\<close>

type_synonym jsobject = "string \<Rightarrow> cell"

definition emptyObject :: jsobject where
  "emptyObject = (\<lambda>k. Undefined)"

text \<open>
  The interfaces \<open>ValidationError\<close> and \<open>ImportResult\<close>. The field \<open>value\<close> of the source
  is \<open>val\<close> here and the result's \<open>message\<close> is \<open>resultMessage\<close>; \<open>generatedCodes\<close> is
  the object's entries in insertion order (a key written again keeps its place),
  \<open>None\<close> for \<open>undefined\<close>. The order of the entries is not used below.
\<close>

record ValidationError =
  row :: nat
  field :: string
  val :: cell
  message :: string

record ImportResult =
  success :: bool
  recordsImported :: nat
  errors :: "ValidationError list"
  resultMessage :: string
  generatedCodes :: "(string \<times> string) list option"

subsection \<open>Row normalizer\<close>

text \<open>
  \<open>mapExcelToSQL\<close>: for each entry of the mapping in order, the cell of the source
  column, with the two literals \<open>"NULL"\<close> and \<open>"null"\<close> replaced by \<open>null\<close>, is
  stored under the target column.
\<close>

definition nullLiteral :: "cell \<Rightarrow> cell" where
  "nullLiteral v = (if v = Str ''NULL'' \<or> v = Str ''null'' then Null else v)"

fun mapEntries :: "jsobject \<Rightarrow> (string \<times> string) list \<Rightarrow> jsobject \<Rightarrow> jsobject" where
  "mapEntries excelRow [] sqlRow = sqlRow"
| "mapEntries excelRow ((excelCol, sqlCol) # rest) sqlRow =
     mapEntries excelRow rest (sqlRow(sqlCol := nullLiteral (excelRow excelCol)))"

definition mapExcelToSQL :: "jsobject \<Rightarrow> (string \<times> string) list \<Rightarrow> jsobject" where
  "mapExcelToSQL excelRow mappings = mapEntries excelRow mappings emptyObject"

definition columnNames :: "string list" where
  "columnNames =
     [''OfficeCode'', ''OfficeDesc'', ''OfficePAddress'', ''OfficeBussAdd'', ''OfficeTel'',
      ''OfficeFax'', ''OfficeBank'', ''OfficeBranch'', ''OfficeBranchNo'', ''OfficeBankAcc'',
      ''OfficeRegNo'', ''OfficeTaxNo'', ''OfficeURL'', ''OfficeEmail'']"

definition columnMap :: "(string \<times> string) list" where
  "columnMap = map (\<lambda>c. (c, c)) columnNames"

subsection \<open>Validator\<close>

definition isSentinel :: "cell \<Rightarrow> bool" where
  "isSentinel c = (c = Str ''OfficeCode'' \<or> c = Str ''Data'' \<or> c = Str ''Context'')"

text \<open>
  The five error objects the validator pushes, and the body of the \<open>forEach\<close>
  callback of \<open>validateOfficeData\<close>, on the pair of the \<open>errors\<close> array and the
  \<open>seenCodes\<close> set. Each \<open>if\<close> of the source is one line.
\<close>

definition requiredCodeError :: "nat \<Rightarrow> cell \<Rightarrow> ValidationError" where
  "requiredCodeError actualRow code =
     \<lparr>row = actualRow, field = ''OfficeCode'', val = code,
      message = ''Office Code is required and will be auto-generated if missing''\<rparr>"

definition requiredNameError :: "nat \<Rightarrow> cell \<Rightarrow> ValidationError" where
  "requiredNameError actualRow desc =
     \<lparr>row = actualRow, field = ''OfficeDesc'', val = desc, message = ''Office Name is required''\<rparr>"

definition duplicateError :: "nat \<Rightarrow> cell \<Rightarrow> ValidationError" where
  "duplicateError actualRow code =
     \<lparr>row = actualRow, field = ''OfficeCode'', val = code,
      message = ''Duplicate Office Code: '' @ cellToString code\<rparr>"

definition codeLengthError :: "nat \<Rightarrow> cell \<Rightarrow> ValidationError" where
  "codeLengthError actualRow code =
     \<lparr>row = actualRow, field = ''OfficeCode'', val = code,
      message = ''Office Code must be 10 characters or less''\<rparr>"

definition nameLengthError :: "nat \<Rightarrow> cell \<Rightarrow> ValidationError" where
  "nameLengthError actualRow desc =
     \<lparr>row = actualRow, field = ''OfficeDesc'', val = desc,
      message = ''Office Name must be 100 characters or less''\<rparr>"

definition pushIf :: "bool \<Rightarrow> ValidationError \<Rightarrow> ValidationError list \<Rightarrow> ValidationError list" where
  "pushIf b e es = (if b then es @ [e] else es)"

definition validateRow ::
  "jsobject \<Rightarrow> nat \<Rightarrow> ValidationError list \<times> cell set \<Rightarrow> ValidationError list \<times> cell set" where
  "validateRow r actualRow st =
     (let code = r ''OfficeCode''; desc = r ''OfficeDesc''; es0 = fst st; seenCodes = snd st in
      if isSentinel code then st
      else
        let es1 = pushIf (\<not> truthy code) (requiredCodeError actualRow code) es0;
            es2 = pushIf (\<not> truthy desc) (requiredNameError actualRow desc) es1;
            es3 = pushIf (truthy code \<and> code \<in> seenCodes) (duplicateError actualRow code) es2;
            seenCodes' = (if truthy code then insert code seenCodes else seenCodes);
            es4 = pushIf (truthy code \<and> lengthExceeds code 10) (codeLengthError actualRow code) es3;
            es5 = pushIf (truthy desc \<and> lengthExceeds desc 100) (nameLengthError actualRow desc) es4
        in (es5, seenCodes'))"

fun forEachRow ::
  "jsobject list \<Rightarrow> nat \<Rightarrow> nat \<Rightarrow> ValidationError list \<times> cell set \<Rightarrow> ValidationError list \<times> cell set" where
  "forEachRow [] index rowOffset st = st"
| "forEachRow (r # rs) index rowOffset st =
     forEachRow rs (Suc index) rowOffset (validateRow r (index + rowOffset) st)"

definition validateOfficeData :: "jsobject list \<Rightarrow> nat \<Rightarrow> ValidationError list" where
  "validateOfficeData data rowOffset = fst (forEachRow data 0 rowOffset ([], {}))"

text \<open>The orchestrator's filter for the critical errors.\<close>

definition critical :: "ValidationError \<Rightarrow> bool" where
  "critical e = (str_includes (message e) ''required'' \<or> str_includes (message e) ''Duplicate'')"

subsection \<open>Identifier reconciler\<close>

text \<open>
  The string operations of the base candidate. \<open>toUpperCase\<close> works character by
  character on these strings, and its result can leave them: the small letters
  \<open>a\<close> to \<open>z\<close> and the small letters of the Latin-1 supplement (\<open>U+00E0\<close> to
  \<open>U+00FE\<close>, the division sign \<open>U+00F7\<close> apart) move down by 32, the sharp s
  \<open>U+00DF\<close> becomes the two letters \<open>SS\<close>, the micro sign \<open>U+00B5\<close> becomes the
  Greek capital \<open>U+039C\<close> and \<open>U+00FF\<close> becomes \<open>U+0178\<close>; every other
  character stays. The result is therefore a list of code units.
  \<open>replace(/[^A-Z0-9]/g, "")\<close> keeps the code units of the capitals \<open>A\<close> to \<open>Z\<close>
  and of the digits, which are characters again.
\<close>

definition upperUnits :: "char \<Rightarrow> nat list" where
  "upperUnits c =
     (let n = (of_char c :: nat) in
      if 97 \<le> n \<and> n \<le> 122 then [n - 32]
      else if n = 181 then [924]
      else if n = 223 then [83, 83]
      else if 224 \<le> n \<and> n \<le> 254 \<and> n \<noteq> 247 then [n - 32]
      else if n = 255 then [376]
      else [n])"

definition toUpperCase :: "string \<Rightarrow> nat list" where
  "toUpperCase s = concat (map upperUnits s)"

definition isCapitalOrDigit :: "nat \<Rightarrow> bool" where
  "isCapitalOrDigit n = ((65 \<le> n \<and> n \<le> 90) \<or> (48 \<le> n \<and> n \<le> 57))"

definition stripNonAlnum :: "nat list \<Rightarrow> string" where
  "stripNonAlnum units = map char_of (filter isCapitalOrDigit units)"

definition baseCodeOf :: "string \<Rightarrow> string" where
  "baseCodeOf desc = stripNonAlnum (toUpperCase (take 10 desc))"

text \<open>ASCII text: every code unit is below 128.\<close>

definition isAscii :: "string \<Rightarrow> bool" where
  "isAscii s = list_all (\<lambda>c. (of_char c :: nat) < 128) s"

text \<open>\<open>padStart(2, "0")\<close> and the candidate built from the counter.\<close>

definition padStart2 :: "string \<Rightarrow> string" where
  "padStart2 s = replicate (2 - length s) (CHR ''0'') @ s"

definition candidate :: "string \<Rightarrow> nat \<Rightarrow> string" where
  "candidate baseCode counter = take 8 baseCode @ padStart2 (toString counter)"

definition existingCodesOf :: "jsobject list \<Rightarrow> cell list" where
  "existingCodesOf offices = filter truthy (map (\<lambda>x. x ''OfficeCode'') offices)"

text \<open>The decimal digits read back; it separates the candidates of different counters.\<close>

definition digit_val :: "char \<Rightarrow> nat" where
  "digit_val c = of_char c - 48"

definition decimal :: "string \<Rightarrow> nat" where
  "decimal s = foldl (\<lambda>a c. 10 * a + digit_val c) 0 s"

lemma digit_val_digit_char: "d < 10 \<Longrightarrow> digit_val (digit_char d) = d"
  by (simp add: digit_val_def digit_char_def)

lemma decimal_snoc: "decimal (s @ [c]) = 10 * decimal s + digit_val c"
  by (simp add: decimal_def)

lemma decimal_toString: "decimal (toString n) = n"
proof (induction n rule: toString.induct)
  case (1 n)
  show ?case
  proof (cases "n < 10")
    case True
    then show ?thesis
      by (subst toString.simps) (simp add: decimal_def digit_val_digit_char)
  next
    case False
    then show ?thesis
      using 1 by (subst toString.simps) (simp add: decimal_snoc digit_val_digit_char)
  qed
qed

lemma decimal_leading_zeros: "decimal (replicate k (CHR ''0'') @ s) = decimal s"
proof -
  have "foldl (\<lambda>a c. 10 * a + digit_val c) 0 (replicate k (CHR ''0'')) = 0"
    by (induction k) (simp_all add: digit_val_def)
  then show ?thesis
    by (simp add: decimal_def)
qed

lemma decimal_padStart2: "decimal (padStart2 (toString n)) = n"
  by (simp add: padStart2_def decimal_leading_zeros decimal_toString)

lemma candidate_inj: "candidate b j = candidate b k \<Longrightarrow> j = k"
proof -
  assume "candidate b j = candidate b k"
  then have "padStart2 (toString j) = padStart2 (toString k)"
    by (simp add: candidate_def)
  then have "decimal (padStart2 (toString j)) = decimal (padStart2 (toString k))"
    by simp
  then show "j = k"
    by (simp add: decimal_padStart2)
qed

lemma finite_colliding: "finite {k. Str (candidate b k) \<in> set E}"
proof -
  have "inj (\<lambda>k. Str (candidate b k))"
    by (rule injI) (simp add: candidate_inj)
  then have "finite ((\<lambda>k. Str (candidate b k)) -` set E)"
    by (simp add: finite_vimageI)
  then show ?thesis
    by (simp add: vimage_def)
qed

text \<open>
  The \<open>while\<close> loop of the reconciler: \<open>code\<close> and \<open>counter\<close> are the loop's variables,
  \<open>existingCodes\<close> and \<open>baseCode\<close> stay fixed. \<open>includes\<close> compares with the string
  \<open>code\<close>, so a number among the existing codes never matches.
\<close>

function probe :: "cell list \<Rightarrow> string \<Rightarrow> string \<Rightarrow> nat \<Rightarrow> string" where
  "probe existingCodes baseCode code counter =
     (if Str code \<in> set existingCodes
      then probe existingCodes baseCode (candidate baseCode counter) (Suc counter)
      else code)"
  by pat_completeness auto
termination
proof (relation "measure (\<lambda>(E, b, code, counter).
         card {k. counter \<le> k \<and> Str (candidate b k) \<in> set E} + (if Str code \<in> set E then 1 else 0))",
       goal_cases)
  case 1
  show ?case by simp
next
  case (2 E b code counter)
  let ?A = "{k. Suc counter \<le> k \<and> Str (candidate b k) \<in> set E}"
  let ?B = "{k. counter \<le> k \<and> Str (candidate b k) \<in> set E}"
  have finA: "finite ?A"
    by (rule finite_subset [OF _ finite_colliding [of b E]]) auto
  have "?B = (if Str (candidate b counter) \<in> set E then insert counter ?A else ?A)"
    by (auto simp: Suc_le_eq le_less)
  then have "card ?B = card ?A + (if Str (candidate b counter) \<in> set E then 1 else 0)"
    using finA by simp
  then show ?case
    using 2 by simp
qed

declare probe.simps [simp del]

text \<open>
  The reconciling loop over \<open>offices\<close>. The array is mutated in place while it is
  traversed: \<open>done\<close> holds the records already visited (with their codes filled in),
  the second list the records still to visit, and the existing codes are read from
  both. A description that is not a string has no \<open>substring\<close> method: the call raises
  a \<open>TypeError\<close>, here \<open>Inl\<close> with the error's message.
\<close>

definition notAFunction :: string where
  "notAFunction = ''office.OfficeDesc.substring is not a function''"

fun reconcileFrom ::
  "jsobject list \<Rightarrow> jsobject list \<Rightarrow> (string \<times> string) list
     \<Rightarrow> string + (jsobject list \<times> (string \<times> string) list)" where
  "reconcileFrom done [] generated = Inr (done, generated)"
| "reconcileFrom done (office # rest) generated =
     (if \<not> truthy (office ''OfficeCode'') then
        (case office ''OfficeDesc'' of
           Str desc \<Rightarrow>
             (let baseCode = baseCodeOf desc;
                  existingCodes = existingCodesOf (done @ office # rest);
                  code = probe existingCodes baseCode baseCode 1
              in reconcileFrom (done @ [office(''OfficeCode'' := Str code)]) rest
                   (AList.update desc code generated))
         | _ \<Rightarrow> Inl notAFunction)
      else reconcileFrom (done @ [office]) rest generated)"

definition reconcile :: "jsobject list \<Rightarrow> string + (jsobject list \<times> (string \<times> string) list)" where
  "reconcile offices = reconcileFrom [] offices []"

subsection \<open>Connection and batch persister\<close>

text \<open>
  The fields of the class that the import reads: the connection pool (\<open>null\<close> until
  connected; \<open>'st\<close> is the state of the store behind it, together with the UUID
  source) and the country identifier. \<open>connect\<close> takes the outcome of \<open>sql.connect\<close>:
  \<open>Inl\<close> with the message when it raises.
\<close>

record 'st GreatSoftImplementation =
  pool :: "'st option"
  countryID :: int

definition connect ::
  "string + 'st \<Rightarrow> 'st GreatSoftImplementation \<Rightarrow> string + 'st GreatSoftImplementation" where
  "connect sqlConnect this =
     (case pool this of
        None \<Rightarrow> (case sqlConnect of Inl e \<Rightarrow> Inl e | Inr p \<Rightarrow> Inr (this\<lparr>pool := Some p\<rparr>))
      | Some p \<Rightarrow> Inr this)"

text \<open>
  The body of the inner \<open>try\<close>: one insert, with the country identifier and the record
  as parameters. \<open>storeInsert\<close> is the store: it returns its new state and \<open>None\<close>,
  or the message of the error it raises. On a \<open>null\<close> pool the call of \<open>request\<close>
  raises a \<open>TypeError\<close>, which the same \<open>catch\<close> receives.
\<close>

definition nullPoolMessage :: string where
  "nullPoolMessage =
     ''Cannot read properties of null (reading '' @ [CHR 0x27] @ ''request'' @ [CHR 0x27] @ '')''"

definition insertOffice ::
  "('st \<Rightarrow> int \<Rightarrow> jsobject \<Rightarrow> 'st \<times> string option) \<Rightarrow> int \<Rightarrow> 'st option \<Rightarrow> jsobject
     \<Rightarrow> 'st option \<times> string option" where
  "insertOffice storeInsert cid p office =
     (case p of
        None \<Rightarrow> (None, Some nullPoolMessage)
      | Some st \<Rightarrow> (case storeInsert st cid office of (st', outcome) \<Rightarrow> (Some st', outcome)))"

definition databaseError :: "nat \<Rightarrow> jsobject \<Rightarrow> string \<Rightarrow> ValidationError" where
  "databaseError index office msg =
     \<lparr>row = index + 2, field = ''database'', val = office ''OfficeCode'',
      message = ''Database error: '' @ msg\<rparr>"

text \<open>
  The persisting loop and its body. \<open>index\<close> is \<open>offices.indexOf(office)\<close>: the
  records are distinct objects, so it is the position of the record. The accumulator
  is the pool, \<open>recordsImported\<close> and \<open>validationErrors\<close>.
\<close>

definition persistOne ::
  "('st \<Rightarrow> int \<Rightarrow> jsobject \<Rightarrow> 'st \<times> string option) \<Rightarrow> int \<Rightarrow> jsobject \<Rightarrow> nat
     \<Rightarrow> 'st option \<times> nat \<times> ValidationError list \<Rightarrow> 'st option \<times> nat \<times> ValidationError list" where
  "persistOne storeInsert cid office index acc =
     (case acc of (p, imported, errs) \<Rightarrow>
        (case insertOffice storeInsert cid p office of
           (p', None) \<Rightarrow> (p', imported + 1, errs)
         | (p', Some msg) \<Rightarrow> (p', imported, errs @ [databaseError index office msg])))"

fun persistLoop ::
  "('st \<Rightarrow> int \<Rightarrow> jsobject \<Rightarrow> 'st \<times> string option) \<Rightarrow> int \<Rightarrow> jsobject list \<Rightarrow> nat
     \<Rightarrow> 'st option \<times> nat \<times> ValidationError list \<Rightarrow> 'st option \<times> nat \<times> ValidationError list" where
  "persistLoop storeInsert cid [] index acc = acc"
| "persistLoop storeInsert cid (office # rest) index acc =
     persistLoop storeInsert cid rest (Suc index) (persistOne storeInsert cid office index acc)"

subsection \<open>Import orchestrator\<close>

definition generalFailure :: "string \<Rightarrow> ImportResult" where
  "generalFailure e =
     \<lparr>success = False, recordsImported = 0,
      errors = [\<lparr>row = 0, field = ''general'', val = Str [], message = e\<rparr>],
      resultMessage = ''Failed to import offices: '' @ e, generatedCodes = None\<rparr>"

definition validationFailure :: "ValidationError list \<Rightarrow> ValidationError list \<Rightarrow> ImportResult" where
  "validationFailure validationErrors criticalErrors =
     \<lparr>success = False, recordsImported = 0, errors = validationErrors,
      resultMessage = ''Validation failed with '' @ toString (length criticalErrors)
        @ '' critical error(s)'',
      generatedCodes = None\<rparr>"

definition importSummary ::
  "nat \<Rightarrow> ValidationError list \<Rightarrow> nat \<Rightarrow> (string \<times> string) list \<Rightarrow> ImportResult" where
  "importSummary imported validationErrors officeCount generated =
     \<lparr>success = 0 < imported, recordsImported = imported, errors = validationErrors,
      resultMessage = ''Successfully imported '' @ toString imported @ '' of '' @ toString officeCount
        @ '' office(s)'',
      generatedCodes = (if generated \<noteq> [] then Some generated else None)\<rparr>"

definition normalizeAndFilter :: "jsobject list \<Rightarrow> jsobject list" where
  "normalizeAndFilter rawData =
     filter (\<lambda>r. truthy (r ''OfficeDesc'')) (map (\<lambda>r. mapExcelToSQL r columnMap) rawData)"

text \<open>
  \<open>importOffices\<close>. \<open>readExcelFile\<close> is the outcome of reading the file at the given
  path: the rows, or \<open>Inl\<close> with the message of the error raised. The result is \<open>Inl\<close>
  when an exception leaves the method (the promise is rejected), otherwise the
  \<open>ImportResult\<close> and the object's fields afterwards. \<open>connect\<close> is awaited before the
  \<open>try\<close> block is entered.
\<close>

definition importOffices ::
  "('st \<Rightarrow> int \<Rightarrow> jsobject \<Rightarrow> 'st \<times> string option) \<Rightarrow> string + 'st \<Rightarrow> string + jsobject list
     \<Rightarrow> 'st GreatSoftImplementation \<Rightarrow> string + (ImportResult \<times> 'st GreatSoftImplementation)" where
  "importOffices storeInsert sqlConnect readExcelFile this =
     (case connect sqlConnect this of
        Inl e \<Rightarrow> Inl e
      | Inr this1 \<Rightarrow>
          (case readExcelFile of
             Inl e \<Rightarrow> Inr (generalFailure e, this1)
           | Inr rawData \<Rightarrow>
               (let offices = normalizeAndFilter rawData;
                    validationErrors = validateOfficeData offices 2;
                    criticalErrors = filter critical validationErrors
                in if validationErrors \<noteq> [] \<and> criticalErrors \<noteq> [] then
                     Inr (validationFailure validationErrors criticalErrors, this1)
                   else
                     (case reconcile offices of
                        Inl e \<Rightarrow> Inr (generalFailure e, this1)
                      | Inr (offices', generated) \<Rightarrow>
                          (case persistLoop storeInsert (countryID this1) offices' 0
                                  (pool this1, 0, validationErrors) of
                             (p', imported, errs) \<Rightarrow>
                               Inr (importSummary imported errs (length offices') generated,
                                    this1\<lparr>pool := p'\<rparr>))))))"

subsection \<open>Sample inputs\<close>

text \<open>
  Concrete inputs for the instances below: a row object from its entries, and a
  store that keeps the codes of the rows it holds and rejects a code it already has.
\<close>

definition rowOf :: "(string \<times> cell) list \<Rightarrow> jsobject" where
  "rowOf entries = (\<lambda>k. case map_of entries k of None \<Rightarrow> Undefined | Some v \<Rightarrow> v)"

definition officeRow :: "cell \<Rightarrow> cell \<Rightarrow> jsobject" where
  "officeRow code desc = rowOf [(''OfficeCode'', code), (''OfficeDesc'', desc)]"

definition uniqueCodeStore :: "cell list \<Rightarrow> int \<Rightarrow> jsobject \<Rightarrow> cell list \<times> string option" where
  "uniqueCodeStore st cid office =
     (if office ''OfficeCode'' \<in> set st then (st, Some ''Violation of UNIQUE KEY constraint'')
      else (st @ [office ''OfficeCode''], None))"

definition freshImplementation :: "cell list GreatSoftImplementation" where
  "freshImplementation = \<lparr>pool = None, countryID = 1\<rparr>"

subsection \<open>Notions used in the statements\<close>

text \<open>
  The errors one row adds when the callback runs with a given \<open>seenCodes\<close>, and the
  codes the callback has added to \<open>seenCodes\<close> after a list of rows.
\<close>

definition rowErrors :: "jsobject \<Rightarrow> nat \<Rightarrow> cell set \<Rightarrow> ValidationError list" where
  "rowErrors r actualRow seenCodes = fst (validateRow r actualRow ([], seenCodes))"

definition seenCodesOf :: "jsobject list \<Rightarrow> cell set" where
  "seenCodesOf rs = {c. \<exists>r \<in> set rs. c = r ''OfficeCode'' \<and> \<not> isSentinel c \<and> truthy c}"


text \<open>
  The persister, said record by record: the outcome of each insert when the records
  are inserted one after the other (\<open>None\<close> for a success, the message of the failure
  otherwise), the pool after all of them, and the database errors of the failures.
\<close>

fun insertOutcomes ::
  "('st \<Rightarrow> int \<Rightarrow> jsobject \<Rightarrow> 'st \<times> string option) \<Rightarrow> int \<Rightarrow> 'st option \<Rightarrow> jsobject list
     \<Rightarrow> string option list" where
  "insertOutcomes storeInsert cid p [] = []"
| "insertOutcomes storeInsert cid p (office # rest) =
     snd (insertOffice storeInsert cid p office)
       # insertOutcomes storeInsert cid (fst (insertOffice storeInsert cid p office)) rest"

fun poolAfter ::
  "('st \<Rightarrow> int \<Rightarrow> jsobject \<Rightarrow> 'st \<times> string option) \<Rightarrow> int \<Rightarrow> 'st option \<Rightarrow> jsobject list
     \<Rightarrow> 'st option" where
  "poolAfter storeInsert cid p [] = p"
| "poolAfter storeInsert cid p (office # rest) =
     poolAfter storeInsert cid (fst (insertOffice storeInsert cid p office)) rest"

fun failedInserts :: "nat \<Rightarrow> jsobject list \<Rightarrow> string option list \<Rightarrow> ValidationError list" where
  "failedInserts index (office # rest) (None # outcomes) = failedInserts (Suc index) rest outcomes"
| "failedInserts index (office # rest) (Some msg # outcomes) =
     databaseError index office msg # failedInserts (Suc index) rest outcomes"
| "failedInserts index offices outcomes = []"

text \<open>
  The reconciler, said record by record: the office codes of a list of records, the
  outcome of \<open>reconcile\<close> read through them, and the record the loop writes for a
  record without a code when the other records of the array are \<open>others\<close>.
\<close>

definition codesOf :: "jsobject list \<Rightarrow> cell list" where
  "codesOf offices = map (\<lambda>x. x ''OfficeCode'') offices"

definition reconciledCodes :: "jsobject list \<Rightarrow> string + (cell list \<times> (string \<times> string) list)" where
  "reconciledCodes offices =
     (case reconcile offices of Inl e \<Rightarrow> Inl e | Inr (offices', generated) \<Rightarrow> Inr (codesOf offices', generated))"

definition generatedCodeOf :: "jsobject list \<Rightarrow> jsobject \<Rightarrow> string \<Rightarrow> jsobject" where
  "generatedCodeOf others office desc =
     office(''OfficeCode'' := Str (probe (existingCodesOf others) (baseCodeOf desc) (baseCodeOf desc) 1))"

section \<open>Properties of the validator\<close>

lemmas error_defs =
  requiredCodeError_def requiredNameError_def duplicateError_def codeLengthError_def nameLengthError_def

lemma validateRow_split:
  "validateRow r a (es, seen) =
     (es @ rowErrors r a seen,
      seen \<union> seenCodesOf [r])"
  by (auto simp: validateRow_def rowErrors_def seenCodesOf_def pushIf_def Let_def error_defs)

lemma seenCodesOf_Cons: "seenCodesOf (r # rs) = seenCodesOf [r] \<union> seenCodesOf rs"
  by (auto simp: seenCodesOf_def)

lemma seenCodesOf_Nil: "seenCodesOf [] = {}"
  by (simp add: seenCodesOf_def)

lemma forEachRow_seen: "snd (forEachRow rs i off (es, seen)) = seen \<union> seenCodesOf rs"
proof (induction rs arbitrary: i es seen)
  case Nil
  then show ?case by (simp add: seenCodesOf_Nil)
next
  case (Cons r rs)
  show ?case
    by (simp add: validateRow_split Cons.IH Un_assoc seenCodesOf_Cons [of r rs])
qed

lemma forEachRow_append:
  "forEachRow (xs @ ys) i off st = forEachRow ys (i + length xs) off (forEachRow xs i off st)"
  by (induction xs arbitrary: i st) simp_all

lemma forEachRow_errors:
  "set (fst (forEachRow rs i off (es, seen))) =
     set es \<union> (\<Union>k<length rs. set (rowErrors (rs ! k) (i + k + off) (seen \<union> seenCodesOf (take k rs))))"
proof (induction rs arbitrary: i es seen)
  case Nil
  then show ?case by simp
next
  case (Cons r rs)
  have split: "{..<Suc (length rs)} = insert 0 (Suc ` {..<length rs})"
    by (auto simp: lessThan_Suc_eq_insert_0)
  show ?case
    by (simp add: validateRow_split Cons.IH split seenCodesOf_Nil seenCodesOf_Cons [of r "take _ rs"]
         Un_assoc) 
qed

lemma validateOfficeData_errors:
  "set (validateOfficeData data off) =
     (\<Union>k<length data. set (rowErrors (data ! k) (k + off) (seenCodesOf (take k data))))"
  by (simp add: validateOfficeData_def forEachRow_errors)

lemma sentinel_truthy: "isSentinel c \<Longrightarrow> truthy c"
  by (auto simp: isSentinel_def)

lemma rowErrors_sentinel: "isSentinel (r ''OfficeCode'') \<Longrightarrow> rowErrors r a seen = []"
  by (simp add: rowErrors_def validateRow_def)

lemma rowErrors_row: "e \<in> set (rowErrors r a seen) \<Longrightarrow> row e = a \<and> \<not> isSentinel (r ''OfficeCode'')"
  by (auto simp: rowErrors_def validateRow_def pushIf_def Let_def error_defs split: if_splits)

lemma critical_requiredCodeError: "critical (requiredCodeError a c)"
  by (simp add: critical_def requiredCodeError_def)

lemma critical_requiredNameError: "critical (requiredNameError a c)"
  by (simp add: critical_def requiredNameError_def)

lemma critical_duplicateError: "critical (duplicateError a c)"
  by (simp add: critical_def duplicateError_def)

lemma rowErrors_missing_code:
  "\<not> truthy (r ''OfficeCode'') \<Longrightarrow> requiredCodeError a (r ''OfficeCode'') \<in> set (rowErrors r a seen)"
  using sentinel_truthy [of "r ''OfficeCode''"]
  by (auto simp: rowErrors_def validateRow_def pushIf_def Let_def error_defs requiredCodeError_def)

lemma rowErrors_missing_desc:
  "\<not> isSentinel (r ''OfficeCode'') \<Longrightarrow> \<not> truthy (r ''OfficeDesc'')
     \<Longrightarrow> requiredNameError a (r ''OfficeDesc'') \<in> set (rowErrors r a seen)"
  by (auto simp: rowErrors_def validateRow_def pushIf_def Let_def error_defs requiredNameError_def)

lemma rowErrors_duplicate:
  "\<not> isSentinel (r ''OfficeCode'') \<Longrightarrow> truthy (r ''OfficeCode'') \<Longrightarrow> r ''OfficeCode'' \<in> seen
     \<Longrightarrow> duplicateError a (r ''OfficeCode'') \<in> set (rowErrors r a seen)"
  by (auto simp: rowErrors_def validateRow_def pushIf_def Let_def error_defs duplicateError_def)

lemma rowErrors_duplicate_only:
  "duplicateError a c \<in> set (rowErrors r a seen) \<Longrightarrow> r ''OfficeCode'' \<in> seen"
  by (auto simp: rowErrors_def validateRow_def pushIf_def Let_def error_defs duplicateError_def split: if_splits)

lemma validate_missing_code:
  assumes "k < length data" and "\<not> truthy ((data ! k) ''OfficeCode'')"
  shows "requiredCodeError (k + off) ((data ! k) ''OfficeCode'') \<in> set (validateOfficeData data off)"
  using assms rowErrors_missing_code by (auto simp: validateOfficeData_errors)

lemma validate_missing_desc:
  assumes "k < length data" and "\<not> isSentinel ((data ! k) ''OfficeCode'')"
    and "\<not> truthy ((data ! k) ''OfficeDesc'')"
  shows "requiredNameError (k + off) ((data ! k) ''OfficeDesc'') \<in> set (validateOfficeData data off)"
  using assms rowErrors_missing_desc by (auto simp: validateOfficeData_errors)

lemma seenCodesOf_take:
  "i < j \<Longrightarrow> j < length data \<Longrightarrow> \<not> isSentinel ((data ! i) ''OfficeCode'')
     \<Longrightarrow> truthy ((data ! i) ''OfficeCode'') \<Longrightarrow> (data ! i) ''OfficeCode'' \<in> seenCodesOf (take j data)"
proof -
  assume a: "i < j" "j < length data" "\<not> isSentinel ((data ! i) ''OfficeCode'')"
    "truthy ((data ! i) ''OfficeCode'')"
  then have "take j data ! i = data ! i" and "i < length (take j data)"
    by simp_all
  then have "data ! i \<in> set (take j data)"
    by (metis nth_mem)
  with a show ?thesis
    unfolding seenCodesOf_def by blast
qed

lemma validate_duplicate:
  assumes "i < j" and "j < length data"
    and "(data ! i) ''OfficeCode'' = (data ! j) ''OfficeCode''"
    and "truthy ((data ! j) ''OfficeCode'')" and "\<not> isSentinel ((data ! j) ''OfficeCode'')"
  shows "duplicateError (j + off) ((data ! j) ''OfficeCode'') \<in> set (validateOfficeData data off)"
proof -
  have "(data ! j) ''OfficeCode'' \<in> seenCodesOf (take j data)"
    using seenCodesOf_take [of i j data] assms by simp
  then have "duplicateError (j + off) ((data ! j) ''OfficeCode'')
      \<in> set (rowErrors (data ! j) (j + off) (seenCodesOf (take j data)))"
    using assms rowErrors_duplicate by simp
  then show ?thesis
    using assms(2) by (auto simp: validateOfficeData_errors)
qed

lemma validate_first_seen:
  assumes "duplicateError (j + off) c \<in> set (validateOfficeData data off)"
  shows "\<exists>i<j. (data ! i) ''OfficeCode'' = (data ! j) ''OfficeCode''"
proof -
  from assms obtain k where k: "k < length data"
    and mem: "duplicateError (j + off) c \<in> set (rowErrors (data ! k) (k + off) (seenCodesOf (take k data)))"
    by (auto simp: validateOfficeData_errors)
  from rowErrors_row [OF mem] have "k = j"
    by (simp add: duplicateError_def)
  with mem have "(data ! j) ''OfficeCode'' \<in> seenCodesOf (take j data)"
    using rowErrors_duplicate_only by blast
  then obtain r where "r \<in> set (take j data)" and "r ''OfficeCode'' = (data ! j) ''OfficeCode''"
    by (auto simp: seenCodesOf_def)
  then show ?thesis
    by (auto simp: in_set_conv_nth)
qed


section \<open>Properties of the import\<close>

lemma import_abort:
  assumes "connect sqlConnect this = Inr this1"
    and "e \<in> set (validateOfficeData (normalizeAndFilter rawData) 2)" and "critical e"
  shows "importOffices storeInsert sqlConnect (Inr rawData) this =
           Inr (validationFailure (validateOfficeData (normalizeAndFilter rawData) 2)
                  (filter critical (validateOfficeData (normalizeAndFilter rawData) 2)), this1)"
proof -
  have "filter critical (validateOfficeData (normalizeAndFilter rawData) 2) \<noteq> []"
    using assms(2,3) by (auto simp: filter_empty_conv)
  moreover have "validateOfficeData (normalizeAndFilter rawData) 2 \<noteq> []"
    using assms(2) by auto
  ultimately show ?thesis
    using assms(1) by (simp add: importOffices_def Let_def)
qed

subsection \<open>A missing office code\<close>

text \<open>
  Claim C1 says that a batch in which a record lacks its office code is not aborted.
  The code aborts it: the message of the error for the missing code contains the
  word \<open>required\<close>, which is what the orchestrator's filter for critical errors looks
  for. For every batch read from the file, when a record that passed the description
  filter has no office code, the validator reports the error for its row, the error
  is critical, and the import returns the validation failure with no record
  imported and the store as the connection left it.
\<close>

theorem missing_code_aborts_import:
  assumes "connect sqlConnect this = Inr this1"
    and "offices = normalizeAndFilter rawData"
    and "k < length offices"
    and "\<not> truthy ((offices ! k) ''OfficeCode'')"
  shows "requiredCodeError (k + 2) ((offices ! k) ''OfficeCode'') \<in> set (validateOfficeData offices 2)
       \<and> critical (requiredCodeError (k + 2) ((offices ! k) ''OfficeCode''))
       \<and> importOffices storeInsert sqlConnect (Inr rawData) this =
           Inr (validationFailure (validateOfficeData offices 2)
                  (filter critical (validateOfficeData offices 2)), this1)"
proof -
  have mem: "requiredCodeError (k + 2) ((offices ! k) ''OfficeCode'') \<in> set (validateOfficeData offices 2)"
    using assms(3,4) by (rule validate_missing_code)
  have crit: "critical (requiredCodeError (k + 2) ((offices ! k) ''OfficeCode''))"
    by (rule critical_requiredCodeError)
  from mem crit import_abort [OF assms(1), of _ rawData storeInsert] show ?thesis
    unfolding assms(2) by blast
qed

text \<open>
  The batch of two records with descriptions, the second without a code: nothing is
  imported and the table stays empty.
\<close>

theorem missing_code_aborts_import_witness:
  "importOffices uniqueCodeStore (Inr [])
     (Inr [officeRow (Str ''HQ'') (Str ''Head Office''), officeRow Null (Str ''Cape Town Branch'')])
     freshImplementation =
   Inr (\<lparr>success = False, recordsImported = 0,
         errors = [\<lparr>row = 3, field = ''OfficeCode'', val = Null,
                    message = ''Office Code is required and will be auto-generated if missing''\<rparr>],
         resultMessage = ''Validation failed with 1 critical error(s)'',
         generatedCodes = None\<rparr>,
        \<lparr>pool = Some [], countryID = 1\<rparr>)"
proof -
  let ?raw = "[officeRow (Str ''HQ'') (Str ''Head Office''), officeRow Null (Str ''Cape Town Branch'')]"
  have c: "connect (Inr []) freshImplementation = Inr \<lparr>pool = Some [], countryID = 1\<rparr>"
    by code_simp
  have k: "1 < length (normalizeAndFilter ?raw)"
    by code_simp
  have m: "\<not> truthy ((normalizeAndFilter ?raw ! 1) ''OfficeCode'')"
    by code_simp
  have v: "validateOfficeData (normalizeAndFilter ?raw) 2 =
      [\<lparr>row = 3, field = ''OfficeCode'', val = Null,
        message = ''Office Code is required and will be auto-generated if missing''\<rparr>]"
    by code_simp
  have f: "validationFailure [\<lparr>row = 3, field = ''OfficeCode'', val = Null,
        message = ''Office Code is required and will be auto-generated if missing''\<rparr>]
       (filter critical [\<lparr>row = 3, field = ''OfficeCode'', val = Null,
        message = ''Office Code is required and will be auto-generated if missing''\<rparr>]) =
      \<lparr>success = False, recordsImported = 0,
         errors = [\<lparr>row = 3, field = ''OfficeCode'', val = Null,
                    message = ''Office Code is required and will be auto-generated if missing''\<rparr>],
         resultMessage = ''Validation failed with 1 critical error(s)'',
         generatedCodes = None\<rparr>"
    by code_simp
  from missing_code_aborts_import [OF c refl k m, of uniqueCodeStore]
  show ?thesis
    unfolding v f by simp
qed

subsection \<open>A duplicate office code\<close>

text \<open>
  Claim C4. For every batch of records with descriptions in which two records carry
  the same office code, a code that is present and is not one of the sentinel
  strings, the validator reports a duplicate error for the row of the later record,
  that error is critical, and the import returns \<open>success = false\<close>, no record
  imported and the validator's errors; the object is returned as \<open>connect\<close> left it,
  whatever the store would do, so no insert is attempted. Tracking is first seen
  wins: a duplicate error for a row means an earlier row carries the same code.
\<close>

theorem duplicate_code_aborts_import:
  assumes "connect sqlConnect this = Inr this1"
    and "offices = normalizeAndFilter rawData"
    and "i < j" and "j < length offices"
    and "(offices ! i) ''OfficeCode'' = (offices ! j) ''OfficeCode''"
    and "truthy ((offices ! j) ''OfficeCode'')"
    and "\<not> isSentinel ((offices ! j) ''OfficeCode'')"
  shows "duplicateError (j + 2) ((offices ! j) ''OfficeCode'') \<in> set (validateOfficeData offices 2)
       \<and> critical (duplicateError (j + 2) ((offices ! j) ''OfficeCode''))
       \<and> (\<exists>r. importOffices storeInsert sqlConnect (Inr rawData) this = Inr (r, this1)
             \<and> success r = False \<and> recordsImported r = 0
             \<and> errors r = validateOfficeData offices 2)
       \<and> (\<forall>k c. duplicateError (k + 2) c \<in> set (validateOfficeData offices 2)
             \<longrightarrow> (\<exists>h<k. (offices ! h) ''OfficeCode'' = (offices ! k) ''OfficeCode''))"
proof -
  have mem: "duplicateError (j + 2) ((offices ! j) ''OfficeCode'') \<in> set (validateOfficeData offices 2)"
    using assms(3-7) by (rule validate_duplicate)
  have crit: "critical (duplicateError (j + 2) ((offices ! j) ''OfficeCode''))"
    by (rule critical_duplicateError)
  have "importOffices storeInsert sqlConnect (Inr rawData) this =
           Inr (validationFailure (validateOfficeData offices 2)
                  (filter critical (validateOfficeData offices 2)), this1)"
    using import_abort [OF assms(1) _ crit, of rawData storeInsert] mem
    unfolding assms(2) by simp
  then have "\<exists>r. importOffices storeInsert sqlConnect (Inr rawData) this = Inr (r, this1)
             \<and> success r = False \<and> recordsImported r = 0
             \<and> errors r = validateOfficeData offices 2"
    by (simp add: validationFailure_def)
  moreover have "\<forall>k c. duplicateError (k + 2) c \<in> set (validateOfficeData offices 2)
             \<longrightarrow> (\<exists>h<k. (offices ! h) ''OfficeCode'' = (offices ! k) ''OfficeCode'')"
    using validate_first_seen by blast
  ultimately show ?thesis
    using mem crit by blast
qed


text \<open>Three rows, the third repeating the code of the first.\<close>

theorem duplicate_code_aborts_import_witness:
  "importOffices uniqueCodeStore (Inr [])
     (Inr [officeRow (Str ''HQ'') (Str ''Head Office''), officeRow (Str ''CPT'') (Str ''Cape Town''),
           officeRow (Str ''HQ'') (Str ''Harbour Quay'')])
     freshImplementation =
   Inr (\<lparr>success = False, recordsImported = 0,
         errors = [\<lparr>row = 4, field = ''OfficeCode'', val = Str ''HQ'',
                    message = ''Duplicate Office Code: HQ''\<rparr>],
         resultMessage = ''Validation failed with 1 critical error(s)'',
         generatedCodes = None\<rparr>,
        \<lparr>pool = Some [], countryID = 1\<rparr>)"
proof -
  let ?raw = "[officeRow (Str ''HQ'') (Str ''Head Office''), officeRow (Str ''CPT'') (Str ''Cape Town''),
           officeRow (Str ''HQ'') (Str ''Harbour Quay'')]"
  have c: "connect (Inr []) freshImplementation = Inr \<lparr>pool = Some [], countryID = 1\<rparr>"
    by code_simp
  have ij: "(0::nat) < 2" by simp
  have j: "2 < length (normalizeAndFilter ?raw)"
    by code_simp
  have eq: "(normalizeAndFilter ?raw ! 0) ''OfficeCode'' = (normalizeAndFilter ?raw ! 2) ''OfficeCode''"
    by code_simp
  have t: "truthy ((normalizeAndFilter ?raw ! 2) ''OfficeCode'')"
    by code_simp
  have ns: "\<not> isSentinel ((normalizeAndFilter ?raw ! 2) ''OfficeCode'')"
    by code_simp
  have v: "validateOfficeData (normalizeAndFilter ?raw) 2 =
      [\<lparr>row = 4, field = ''OfficeCode'', val = Str ''HQ'', message = ''Duplicate Office Code: HQ''\<rparr>]"
    by code_simp
  have whole: "importOffices uniqueCodeStore (Inr []) (Inr ?raw) freshImplementation = 
     Inr (\<lparr>success = False, recordsImported = 0,
         errors = [\<lparr>row = 4, field = ''OfficeCode'', val = Str ''HQ'',
                    message = ''Duplicate Office Code: HQ''\<rparr>],
         resultMessage = ''Validation failed with 1 critical error(s)'',
         generatedCodes = None\<rparr>,
        \<lparr>pool = Some [], countryID = 1\<rparr>)"
    by code_simp
  from duplicate_code_aborts_import [OF c refl ij j eq t ns, of uniqueCodeStore]
  obtain r where "importOffices uniqueCodeStore (Inr []) (Inr ?raw) freshImplementation =
      Inr (r, \<lparr>pool = Some [], countryID = 1\<rparr>)" and "success r = False" and "recordsImported r = 0"
     and "errors r = validateOfficeData (normalizeAndFilter ?raw) 2"
    by blast
  then show ?thesis
    using whole by simp
qed

subsection \<open>Faults of the file and of the connection\<close>

text \<open>
  Claim C8 says that every fault while reading the file or talking to the store,
  a connection that cannot be established included, comes back as the general
  failure. \<open>connect\<close> is awaited before the \<open>try\<close> block: when the connection
  cannot be established, the exception leaves \<open>importOffices\<close> and no \<open>ImportResult\<close>
  is returned.
\<close>

theorem connect_fault_escapes_counterexample:
  "importOffices uniqueCodeStore (Inl ''Failed to connect to localhost:1433'')
     (Inr [officeRow (Str ''HQ'') (Str ''Head Office'')]) freshImplementation =
   Inl ''Failed to connect to localhost:1433''"
  by code_simp


text \<open>
  Claim C8, amended. On a live connection, every fault raised while the file is read
  comes back as the \<open>ImportResult\<close> with \<open>success = false\<close>, no record imported and
  the single error of field \<open>general\<close> carrying the fault's message; a fault of the
  connection, on an object that has no pool yet, leaves the method as an exception.
  (A fault of an insert is recorded as the \<open>database\<close> error of its row, see C3.)
\<close>

theorem read_fault_is_general_failure:
  assumes "connect sqlConnect this = Inr this1"
  shows "importOffices storeInsert sqlConnect (Inl msg) this =
           Inr (\<lparr>success = False, recordsImported = 0,
                 errors = [\<lparr>row = 0, field = ''general'', val = Str [], message = msg\<rparr>],
                 resultMessage = ''Failed to import offices: '' @ msg, generatedCodes = None\<rparr>, this1)
       \<and> (pool this = None \<longrightarrow>
            importOffices storeInsert (Inl msg) readExcelFile this = Inl msg)"
  using assms by (simp add: importOffices_def generalFailure_def connect_def)


theorem read_fault_is_general_failure_witness:
  "importOffices uniqueCodeStore (Inr []) (Inl ''ENOENT: no such file or directory'') freshImplementation =
     Inr (\<lparr>success = False, recordsImported = 0,
           errors = [\<lparr>row = 0, field = ''general'', val = Str [],
                      message = ''ENOENT: no such file or directory''\<rparr>],
           resultMessage = ''Failed to import offices: ENOENT: no such file or directory'',
           generatedCodes = None\<rparr>, \<lparr>pool = Some [], countryID = 1\<rparr>)"
proof -
  have c: "connect (Inr []) freshImplementation = Inr \<lparr>pool = Some [], countryID = 1\<rparr>"
    by code_simp
  from read_fault_is_general_failure [OF c, of uniqueCodeStore "''ENOENT: no such file or directory''"]
  show ?thesis by simp
qed

section \<open>Properties of the normalizer\<close>

lemma mapEntries_other: "sqlCol \<notin> snd ` set mappings \<Longrightarrow> mapEntries excelRow mappings acc sqlCol = acc sqlCol"
  by (induction mappings arbitrary: acc) auto

lemma mapEntries_entry:
  "distinct (map snd mappings) \<Longrightarrow> (excelCol, sqlCol) \<in> set mappings
     \<Longrightarrow> mapEntries excelRow mappings acc sqlCol = nullLiteral (excelRow excelCol)"
proof (induction mappings arbitrary: acc)
  case Nil
  then show ?case by simp
next
  case (Cons m ms)
  obtain e s where m: "m = (e, s)" by (cases m)
  show ?case
  proof (cases "(excelCol, sqlCol) = m")
    case True
    with Cons.prems m have "sqlCol \<notin> snd ` set ms" by auto
    with True m show ?thesis by (simp add: mapEntries_other)
  next
    case False
    with Cons m show ?thesis by auto
  qed
qed

lemma distinct_columnMap: "distinct (map snd columnMap)"
  by (simp add: columnMap_def columnNames_def comp_def)

lemma columnMap_entries: "(e, s) \<in> set columnMap \<longleftrightarrow> e = s \<and> s \<in> set columnNames"
  by (auto simp: columnMap_def)

lemma normalized_column:
  "mapExcelToSQL excelRow columnMap c = (if c \<in> set columnNames then nullLiteral (excelRow c) else Undefined)"
proof (cases "c \<in> set columnNames")
  case True
  then have "(c, c) \<in> set columnMap" by (simp add: columnMap_entries)
  with True show ?thesis
    by (simp add: mapExcelToSQL_def mapEntries_entry [OF distinct_columnMap])
next
  case False
  then have "c \<notin> snd ` set columnMap" by (auto simp: columnMap_entries)
  with False show ?thesis
    by (simp add: mapExcelToSQL_def mapEntries_other emptyObject_def)
qed

lemma nullLiteral_idem: "nullLiteral (nullLiteral v) = nullLiteral v"
  by (simp add: nullLiteral_def)

text \<open>
  Claim C9 says that the literal \<open>null\<close> is recognised whatever its case. The code
  compares with the two spellings \<open>"NULL"\<close> and \<open>"null"\<close> only: the cell \<open>"Null"\<close>
  passes through.
\<close>

theorem null_literal_case_counterexample:
  "mapExcelToSQL (officeRow (Str ''Null'') (Str ''Head Office'')) columnMap ''OfficeCode'' = Str ''Null''"
  by code_simp


text \<open>
  Claim C9, amended. Under a mapping whose target columns are distinct, the value
  stored for a mapped column is \<open>null\<close> when the raw cell is exactly the string
  \<open>"NULL"\<close> or \<open>"null"\<close>, and the raw cell itself otherwise (a cell that is
  already \<open>null\<close> included). The mapping is a function of the row, and normalizing
  a normalized row again with the import's column map gives the same record.
\<close>

theorem normalizer_exact_null_literals:
  assumes "distinct (map snd mappings)" and "(excelCol, sqlCol) \<in> set mappings"
  shows "mapExcelToSQL excelRow mappings sqlCol =
           (if excelRow excelCol = Str ''NULL'' \<or> excelRow excelCol = Str ''null'' then Null
            else excelRow excelCol)
       \<and> mapExcelToSQL (mapExcelToSQL excelRow columnMap) columnMap = mapExcelToSQL excelRow columnMap"
proof -
  have "mapExcelToSQL (mapExcelToSQL excelRow columnMap) columnMap c = mapExcelToSQL excelRow columnMap c" for c
    by (simp add: normalized_column nullLiteral_idem)
  then have "mapExcelToSQL (mapExcelToSQL excelRow columnMap) columnMap = mapExcelToSQL excelRow columnMap"
    by (rule ext)
  then show ?thesis
    using assms by (simp add: mapExcelToSQL_def mapEntries_entry nullLiteral_def)
qed


theorem normalizer_exact_null_literals_witness:
  "mapExcelToSQL (officeRow (Str ''null'') Null) columnMap ''OfficeCode'' = Null
   \<and> mapExcelToSQL (officeRow (Str ''null'') Null) columnMap ''OfficeDesc'' = Null
   \<and> mapExcelToSQL (officeRow (Str ''NULL'') (Str ''Head Office'')) columnMap ''OfficeDesc'' = Str ''Head Office''"
proof -
  have d: "distinct (map snd columnMap)" by (rule distinct_columnMap)
  have c: "(''OfficeCode'', ''OfficeCode'') \<in> set columnMap" by code_simp
  have e: "(''OfficeDesc'', ''OfficeDesc'') \<in> set columnMap" by code_simp
  show ?thesis
    using normalizer_exact_null_literals [OF d c, of "officeRow (Str ''null'') Null"]
      normalizer_exact_null_literals [OF d e, of "officeRow (Str ''null'') Null"]
      normalizer_exact_null_literals [OF d e, of "officeRow (Str ''NULL'') (Str ''Head Office'')"]
    by (simp add: officeRow_def rowOf_def)
qed

section \<open>Properties of the persister\<close>

lemma persistLoop_char:
  "persistLoop s cid offs i (p, n, errs) =
     (poolAfter s cid p offs,
      n + length (filter (\<lambda>x. x = None) (insertOutcomes s cid p offs)),
      errs @ failedInserts i offs (insertOutcomes s cid p offs))"
proof (induction offs arbitrary: i p n errs)
  case Nil
  then show ?case by simp
next
  case (Cons x xs)
  obtain p' r where ins: "insertOffice s cid p x = (p', r)"
    by (cases "insertOffice s cid p x")
  show ?case
    by (cases r) (simp_all add: persistOne_def ins Cons.IH)
qed

lemma length_insertOutcomes: "length (insertOutcomes s cid p offs) = length offs"
  by (induction offs arbitrary: p) simp_all

lemma failedInserts_mem:
  "length outs = length offs \<Longrightarrow> k < length offs \<Longrightarrow> outs ! k = Some msg
     \<Longrightarrow> databaseError (i + k) (offs ! k) msg \<in> set (failedInserts i offs outs)"
  by (induction i offs outs arbitrary: k rule: failedInserts.induct)
    (auto simp: nth_Cons split: nat.splits)



lemma no_critical_codes:
  assumes "filter critical (validateOfficeData data off) = []" and "k < length data"
  shows "truthy ((data ! k) ''OfficeCode'')"
proof (rule ccontr)
  assume "\<not> truthy ((data ! k) ''OfficeCode'')"
  then have "requiredCodeError (k + off) ((data ! k) ''OfficeCode'') \<in> set (validateOfficeData data off)"
    using assms(2) validate_missing_code by blast
  then have "requiredCodeError (k + off) ((data ! k) ''OfficeCode'') \<in> set (filter critical (validateOfficeData data off))"
    by (simp add: critical_requiredCodeError)
  with assms(1) show False by simp
qed

lemma reconcileFrom_all_codes:
  "(\<forall>r \<in> set todo. truthy (r ''OfficeCode'')) \<Longrightarrow> reconcileFrom done todo g = Inr (done @ todo, g)"
  by (induction todo arbitrary: "done") simp_all

lemma import_persists:
  assumes "connect sqlConnect this = Inr this1"
    and "filter critical (validateOfficeData (normalizeAndFilter rawData) 2) = []"
  shows "importOffices s sqlConnect (Inr rawData) this =
    (case persistLoop s (countryID this1) (normalizeAndFilter rawData) 0
            (pool this1, 0, validateOfficeData (normalizeAndFilter rawData) 2) of
       (p', n, errs) \<Rightarrow>
         Inr (importSummary n errs (length (normalizeAndFilter rawData)) [], this1\<lparr>pool := p'\<rparr>))"
proof -
  have "\<forall>r \<in> set (normalizeAndFilter rawData). truthy (r ''OfficeCode'')"
    using no_critical_codes [OF assms(2)] by (auto simp: in_set_conv_nth)
  then have "reconcile (normalizeAndFilter rawData) = Inr (normalizeAndFilter rawData, [])"
    by (simp add: reconcile_def reconcileFrom_all_codes)
  then show ?thesis
    using assms by (simp add: importOffices_def Let_def)
qed

lemma import_success_iff:
  "importOffices s sqlConnect rd this = Inr (r, t) \<Longrightarrow> success r = (0 < recordsImported r)"
  by (auto simp: importOffices_def Let_def generalFailure_def validationFailure_def importSummary_def
      split: sum.splits if_splits prod.splits)

lemma length_failedInserts:
  "length outs = length offs \<Longrightarrow>
     length (filter (\<lambda>x. x = None) outs) + length (failedInserts i offs outs) = length offs"
  by (induction i offs outs rule: failedInserts.induct) auto

text \<open>
  Claim C3. The persisting loop visits every record: started with no record
  imported, it ends with the pool after all the inserts, the number of inserts that
  succeeded, and the errors it was given followed by the \<open>database\<close> error of each
  insert that failed, in order. For an import on a live connection whose validation
  found no critical error: every record of the batch has its outcome,
  \<open>recordsImported\<close> is the number of successful inserts, each failed insert has
  its error with field \<open>database\<close>, the record's office code as value and the
  failure's message (after the words \<open>Database error:\<close>), and \<open>success\<close> holds
  exactly when \<open>recordsImported\<close> is positive.
\<close>

theorem persistence_isolates_failures:
  assumes "connect sqlConnect this = Inr this1"
    and "offices = normalizeAndFilter rawData"
    and "filter critical (validateOfficeData offices 2) = []"
    and "outcomes = insertOutcomes storeInsert (countryID this1) (pool this1) offices"
  shows "persistLoop storeInsert cid reconciled 0 (p, 0, errs) =
           (poolAfter storeInsert cid p reconciled,
            length (filter (\<lambda>x. x = None) (insertOutcomes storeInsert cid p reconciled)),
            errs @ failedInserts 0 reconciled (insertOutcomes storeInsert cid p reconciled))
       \<and> (\<exists>r t. importOffices storeInsert sqlConnect (Inr rawData) this = Inr (r, t)
            \<and> length outcomes = length offices
            \<and> recordsImported r = length (filter (\<lambda>x. x = None) outcomes)
            \<and> errors r = validateOfficeData offices 2 @ failedInserts 0 offices outcomes
            \<and> recordsImported r + length (failedInserts 0 offices outcomes) = length offices
            \<and> (\<forall>k msg. k < length offices \<and> outcomes ! k = Some msg \<longrightarrow>
                  \<lparr>row = k + 2, field = ''database'', val = (offices ! k) ''OfficeCode'',
                   message = ''Database error: '' @ msg\<rparr> \<in> set (errors r))
            \<and> success r = (0 < recordsImported r)
            \<and> pool t = poolAfter storeInsert (countryID this1) (pool this1) offices)"
proof -
  let ?r = "importSummary (length (filter (\<lambda>x. x = None) outcomes))
              (validateOfficeData offices 2 @ failedInserts 0 offices outcomes) (length offices) []"
  let ?t = "this1\<lparr>pool := poolAfter storeInsert (countryID this1) (pool this1) offices\<rparr>"
  have len: "length outcomes = length offices"
    by (simp add: assms(4) length_insertOutcomes)
  have imp: "importOffices storeInsert sqlConnect (Inr rawData) this = Inr (?r, ?t)"
    using import_persists [OF assms(1), of rawData storeInsert] assms(2,3,4)
    by (simp add: persistLoop_char)
  have failed: "\<forall>k msg. k < length offices \<and> outcomes ! k = Some msg \<longrightarrow>
      \<lparr>row = k + 2, field = ''database'', val = (offices ! k) ''OfficeCode'',
       message = ''Database error: '' @ msg\<rparr> \<in> set (errors ?r)"
    using failedInserts_mem [OF len, of _ _ 0]
    by (auto simp: importSummary_def databaseError_def)
  have count: "recordsImported ?r + length (failedInserts 0 offices outcomes) = length offices"
    using length_failedInserts [OF len] by (simp add: importSummary_def)
  have rest: "recordsImported ?r = length (filter (\<lambda>x. x = None) outcomes)"
    "errors ?r = validateOfficeData offices 2 @ failedInserts 0 offices outcomes"
    "success ?r = (0 < recordsImported ?r)"
    "pool ?t = poolAfter storeInsert (countryID this1) (pool this1) offices"
    by (simp_all add: importSummary_def)
  have loop: "persistLoop storeInsert cid reconciled 0 (p, 0, errs) =
           (poolAfter storeInsert cid p reconciled,
            length (filter (\<lambda>x. x = None) (insertOutcomes storeInsert cid p reconciled)),
            errs @ failedInserts 0 reconciled (insertOutcomes storeInsert cid p reconciled))"
    by (simp add: persistLoop_char)
  show ?thesis
    using imp len failed count rest loop
    apply -
    apply (rule conjI, assumption)
    apply (rule exI [of _ ?r], rule exI [of _ ?t])
    apply (intro conjI; assumption)
    done
qed


text \<open>
  Three rows on a table that already holds the code \<open>CPT\<close>: the second insert fails,
  the third is still made.
\<close>

theorem persistence_isolates_failures_witness:
  "importOffices uniqueCodeStore (Inr [Str ''CPT''])
     (Inr [officeRow (Str ''HQ'') (Str ''Head Office''), officeRow (Str ''CPT'') (Str ''Cape Town''),
           officeRow (Str ''DBN'') (Str ''Durban'')])
     freshImplementation =
   Inr (\<lparr>success = True, recordsImported = 2,
         errors = [\<lparr>row = 3, field = ''database'', val = Str ''CPT'',
                    message = ''Database error: Violation of UNIQUE KEY constraint''\<rparr>],
         resultMessage = ''Successfully imported 2 of 3 office(s)'',
         generatedCodes = None\<rparr>,
        \<lparr>pool = Some [Str ''CPT'', Str ''HQ'', Str ''DBN''], countryID = 1\<rparr>)"
proof -
  let ?raw = "[officeRow (Str ''HQ'') (Str ''Head Office''), officeRow (Str ''CPT'') (Str ''Cape Town''),
           officeRow (Str ''DBN'') (Str ''Durban'')]"
  let ?this1 = "\<lparr>pool = Some [Str ''CPT''], countryID = 1\<rparr>"
  have c: "connect (Inr [Str ''CPT'']) freshImplementation = Inr ?this1"
    by code_simp
  have v: "filter critical (validateOfficeData (normalizeAndFilter ?raw) 2) = []"
    by code_simp
  have whole: "importOffices uniqueCodeStore (Inr [Str ''CPT'']) (Inr ?raw) freshImplementation =
     Inr (\<lparr>success = True, recordsImported = 2,
         errors = [\<lparr>row = 3, field = ''database'', val = Str ''CPT'',
                    message = ''Database error: Violation of UNIQUE KEY constraint''\<rparr>],
         resultMessage = ''Successfully imported 2 of 3 office(s)'',
         generatedCodes = None\<rparr>,
        \<lparr>pool = Some [Str ''CPT'', Str ''HQ'', Str ''DBN''], countryID = 1\<rparr>)"
    by code_simp
  from persistence_isolates_failures [OF c refl v refl, of uniqueCodeStore 1 "[]" None "[]", THEN conjunct2]
  obtain r t where "importOffices uniqueCodeStore (Inr [Str ''CPT'']) (Inr ?raw) freshImplementation = Inr (r, t)"
    and "success r = (0 < recordsImported r)"
    by (elim exE conjE) (rule that)
  then show ?thesis
    using whole by simp
qed

section \<open>Records without a description\<close>

lemma normalizeAndFilter_drops:
  "normalizeAndFilter (filter (\<lambda>r. truthy (mapExcelToSQL r columnMap ''OfficeDesc'')) rawData)
     = normalizeAndFilter rawData"
  by (induction rawData) (simp_all add: normalizeAndFilter_def)

lemma normalizeAndFilter_desc: "r \<in> set (normalizeAndFilter rawData) \<Longrightarrow> truthy (r ''OfficeDesc'')"
  by (auto simp: normalizeAndFilter_def)

lemma importOffices_offices:
  "normalizeAndFilter rawData = normalizeAndFilter rawData'
     \<Longrightarrow> importOffices s c (Inr rawData) this = importOffices s c (Inr rawData') this"
  by (cases "connect c this") (simp_all add: importOffices_def)

text \<open>
  Claim C2 says that a batch containing a record without a description is aborted
  with a critical error for that record. The orchestrator filters such records out
  before it validates: of three rows, the second with an empty description, the
  other two are imported and no error is reported.
\<close>

theorem missing_description_imports_counterexample:
  "importOffices uniqueCodeStore (Inr [])
     (Inr [officeRow (Str ''HQ'') (Str ''Head Office''), officeRow (Str ''CPT'') (Str []),
           officeRow (Str ''DBN'') (Str ''Durban'')])
     freshImplementation =
   Inr (\<lparr>success = True, recordsImported = 2, errors = [],
         resultMessage = ''Successfully imported 2 of 2 office(s)'', generatedCodes = None\<rparr>,
        \<lparr>pool = Some [Str ''HQ'', Str ''DBN''], countryID = 1\<rparr>)"
  by code_simp

text \<open>
  Claim C2, amended. The validator, given a record whose description is missing or
  empty and whose office code is not a sentinel string, reports the error
  \<open>Office Name is required\<close> for that record's row, and the error is critical.
  In the import such a record never reaches the validator: the result of the import
  is the result on the batch without the records that have no description, and
  every record the import validates has one.
\<close>

theorem missing_description_is_filtered_out:
  assumes "k < length data" and "\<not> isSentinel ((data ! k) ''OfficeCode'')"
    and "\<not> truthy ((data ! k) ''OfficeDesc'')"
  shows "requiredNameError (k + rowOffset) ((data ! k) ''OfficeDesc'') \<in> set (validateOfficeData data rowOffset)
       \<and> critical (requiredNameError (k + rowOffset) ((data ! k) ''OfficeDesc''))
       \<and> importOffices storeInsert sqlConnect (Inr rawData) this =
           importOffices storeInsert sqlConnect
             (Inr (filter (\<lambda>r. truthy (mapExcelToSQL r columnMap ''OfficeDesc'')) rawData)) this
       \<and> (\<forall>r \<in> set (normalizeAndFilter rawData). truthy (r ''OfficeDesc''))"
proof -
  have "requiredNameError (k + rowOffset) ((data ! k) ''OfficeDesc'') \<in> set (validateOfficeData data rowOffset)"
    using assms by (rule validate_missing_desc)
  moreover have "critical (requiredNameError (k + rowOffset) ((data ! k) ''OfficeDesc''))"
    by (rule critical_requiredNameError)
  moreover have "importOffices storeInsert sqlConnect (Inr rawData) this =
           importOffices storeInsert sqlConnect
             (Inr (filter (\<lambda>r. truthy (mapExcelToSQL r columnMap ''OfficeDesc'')) rawData)) this"
    by (rule importOffices_offices) (simp add: normalizeAndFilter_drops)
  moreover have "\<forall>r \<in> set (normalizeAndFilter rawData). truthy (r ''OfficeDesc'')"
    using normalizeAndFilter_desc by blast
  ultimately show ?thesis by blast
qed

theorem missing_description_is_filtered_out_witness:
  "validateOfficeData [officeRow (Str ''HQ'') (Str ''Head Office''), officeRow (Str ''CPT'') Null] 2 =
     [\<lparr>row = 3, field = ''OfficeDesc'', val = Null, message = ''Office Name is required''\<rparr>]
   \<and> critical \<lparr>row = 3, field = ''OfficeDesc'', val = Null, message = ''Office Name is required''\<rparr>
   \<and> normalizeAndFilter [officeRow (Str ''HQ'') (Str ''Head Office''), officeRow (Str ''CPT'') Null] =
       normalizeAndFilter [officeRow (Str ''HQ'') (Str ''Head Office'')]"
proof -
  let ?data = "[officeRow (Str ''HQ'') (Str ''Head Office''), officeRow (Str ''CPT'') Null]"
  have k: "1 < length ?data" by simp
  have ns: "\<not> isSentinel ((?data ! 1) ''OfficeCode'')" by code_simp
  have nd: "\<not> truthy ((?data ! 1) ''OfficeDesc'')" by code_simp
  have v: "validateOfficeData ?data 2 =
     [\<lparr>row = 3, field = ''OfficeDesc'', val = Null, message = ''Office Name is required''\<rparr>]"
    by code_simp
  have e: "requiredNameError (1 + 2) ((?data ! 1) ''OfficeDesc'') =
      \<lparr>row = 3, field = ''OfficeDesc'', val = Null, message = ''Office Name is required''\<rparr>"
    by code_simp
  have f: "filter (\<lambda>r. truthy (mapExcelToSQL r columnMap ''OfficeDesc'')) ?data =
      [officeRow (Str ''HQ'') (Str ''Head Office'')]"
    by (simp add: normalized_column columnNames_def officeRow_def rowOf_def nullLiteral_def)
  have n: "normalizeAndFilter ?data = normalizeAndFilter [officeRow (Str ''HQ'') (Str ''Head Office'')]"
    using normalizeAndFilter_drops [of ?data] unfolding f by simp
  from missing_description_is_filtered_out [OF k ns nd, of 2]
  have "critical (requiredNameError (1 + 2) ((?data ! 1) ''OfficeDesc''))"
    by blast
  then show ?thesis
    using v n unfolding e by simp
qed

section \<open>Properties of the reconciler\<close>

subsection \<open>The probing loop\<close>

lemma probe_not_existing: "Str (probe E b code counter) \<notin> set E"
proof (induction E b code counter rule: probe.induct)
  case (1 E b code counter)
  then show ?case
    by (subst probe.simps) simp
qed

lemma probe_free: "Str code \<notin> set E \<Longrightarrow> probe E b code counter = code"
  by (subst probe.simps) simp

lemma probe_steps:
  "code = candidate b n \<Longrightarrow> counter = Suc n \<Longrightarrow>
     \<exists>k\<ge>n. probe E b code counter = candidate b k \<and> Str (candidate b k) \<notin> set E
        \<and> (\<forall>j. n \<le> j \<and> j < k \<longrightarrow> Str (candidate b j) \<in> set E)"
proof (induction E b code counter arbitrary: n rule: probe.induct)
  case (1 E b code counter)
  show ?case
  proof (cases "Str code \<in> set E")
    case False
    then have "probe E b code counter = candidate b n"
      using 1(2) by (simp add: probe_free)
    with False 1(2) show ?thesis
      by (intro exI [of _ n]) auto
  next
    case True
    from 1(1) [OF True, of "Suc n"] 1(3)
    obtain k where k: "Suc n \<le> k" "probe E b (candidate b counter) (Suc counter) = candidate b k"
      "Str (candidate b k) \<notin> set E" "\<forall>j. Suc n \<le> j \<and> j < k \<longrightarrow> Str (candidate b j) \<in> set E"
      by auto
    have "probe E b code counter = candidate b k"
      using True k(2) by (subst probe.simps) simp
    moreover have "\<forall>j. n \<le> j \<and> j < k \<longrightarrow> Str (candidate b j) \<in> set E"
    proof (intro allI impI)
      fix j assume "n \<le> j \<and> j < k"
      then show "Str (candidate b j) \<in> set E"
        using k(4) True 1(2) by (cases "j = n") auto
    qed
    ultimately show ?thesis
      using k(1,3) by (intro exI [of _ k]) auto
  qed
qed

lemma probe_collision:
  assumes "Str b \<in> set E"
  shows "\<exists>k\<ge>1. probe E b b 1 = candidate b k \<and> Str (candidate b k) \<notin> set E
        \<and> (\<forall>j. 1 \<le> j \<and> j < k \<longrightarrow> Str (candidate b j) \<in> set E)"
proof -
  have "probe E b b 1 = probe E b (candidate b 1) (Suc 1)"
    using assms by (subst probe.simps) simp
  then show ?thesis
    using probe_steps [of "candidate b 1" b 1 "Suc 1" E] by simp
qed

lemma length_toString: "n < 100 \<Longrightarrow> length (toString n) \<le> 2"
proof (cases "n < 10")
  case True
  then show ?thesis by (subst toString.simps) simp
next
  case False
  assume "n < 100"
  then have "n div 10 < 10" by simp
  then have "toString (n div 10) = [digit_char (n div 10)]"
    by (subst toString.simps) simp
  with False show ?thesis by (subst toString.simps) simp
qed

lemma toString_nonempty: "toString n \<noteq> []"
  by (subst toString.simps) simp

lemma length_padStart2: "n < 100 \<Longrightarrow> length (padStart2 (toString n)) = 2"
  using length_toString [of n] by (simp add: padStart2_def)

lemma candidate_nonempty: "candidate b k \<noteq> []"
  by (simp add: candidate_def padStart2_def toString_nonempty)

lemma length_candidate: "k < 100 \<Longrightarrow> length (candidate b k) \<le> 10"
  by (simp add: candidate_def length_padStart2)

lemma colliding_bound:
  assumes "\<forall>j. 1 \<le> j \<and> j < k \<longrightarrow> Str (candidate b j) \<in> set E" and "1 \<le> k"
  shows "k \<le> Suc (length E)"
proof -
  have inj: "inj_on (\<lambda>j. Str (candidate b j)) {1..<k}"
    by (rule inj_onI) (simp add: candidate_inj)
  have "(\<lambda>j. Str (candidate b j)) ` {1..<k} \<subseteq> set E"
    using assms(1) by auto
  then have "card ((\<lambda>j. Str (candidate b j)) ` {1..<k}) \<le> card (set E)"
    by (simp add: card_mono)
  then have "k - 1 \<le> card (set E)"
    using inj by (simp add: card_image)
  also have "\<dots> \<le> length E"
    by (rule card_length)
  finally show ?thesis by simp
qed

lemma probe_length:
  assumes "length b \<le> 10" and "length E < 99"
  shows "length (probe E b b 1) \<le> 10"
proof (cases "Str b \<in> set E")
  case False
  then show ?thesis using assms(1) by (simp add: probe_free)
next
  case True
  from probe_collision [OF True] obtain k where k: "1 \<le> k" "probe E b b 1 = candidate b k"
    "\<forall>j. 1 \<le> j \<and> j < k \<longrightarrow> Str (candidate b j) \<in> set E"
    by auto
  from colliding_bound [OF k(3) k(1)] assms(2) have "k < 100" by simp
  then show ?thesis using k(2) by (simp add: length_candidate)
qed

lemma probe_nonempty: "b \<noteq> [] \<Longrightarrow> probe E b b 1 \<noteq> []"
proof (cases "Str b \<in> set E")
  case False
  assume "b \<noteq> []"
  with False show ?thesis by (simp add: probe_free)
next
  case True
  from probe_collision [OF True] obtain k where "probe E b b 1 = candidate b k"
    by auto
  then show ?thesis
    by (simp add: candidate_nonempty)
qed


lemma length_upperUnits_ascii: "(of_char c :: nat) < 128 \<Longrightarrow> length (upperUnits c) = 1"
  by (simp add: upperUnits_def Let_def)


lemma length_toUpperCase_ascii: "isAscii s \<Longrightarrow> length (toUpperCase s) = length s"
  by (induction s) (simp_all add: toUpperCase_def isAscii_def length_upperUnits_ascii)

lemma length_stripNonAlnum: "length (stripNonAlnum units) \<le> length units"
  by (simp add: stripNonAlnum_def)


lemma length_baseCodeOf_ascii: "isAscii (take 10 d) \<Longrightarrow> length (baseCodeOf d) \<le> 10"
proof -
  assume a: "isAscii (take 10 d)"
  have "length (baseCodeOf d) \<le> length (toUpperCase (take 10 d))"
    unfolding baseCodeOf_def by (rule length_stripNonAlnum)
  also have "\<dots> = length (take 10 d)"
    using a by (rule length_toUpperCase_ascii)
  finally show ?thesis by simp
qed


subsection \<open>The loop over the records\<close>

lemma existingCodesOf_insert:
  "\<not> truthy (office ''OfficeCode'') \<Longrightarrow>
     existingCodesOf (xs @ office # ys) = existingCodesOf (xs @ ys)"
  by (simp add: existingCodesOf_def)

lemma reconcileFrom_length:
  "reconcileFrom done todo g = Inr (offs', g') \<Longrightarrow> length offs' = length done + length todo"
  by (induction todo arbitrary: "done" g) (auto split: if_splits cell.splits simp: Let_def)

lemma reconcileFrom_step:
  "reconcileFrom done (office # rest) g = Inr (offs', g')
     \<Longrightarrow> \<exists>x g1. reconcileFrom (done @ [x]) rest g1 = Inr (offs', g')"
  by (auto split: if_splits cell.splits simp: Let_def)

lemma take_snoc_prefix: "take (Suc (length xs)) ys = xs @ [x] \<Longrightarrow> take (length xs) ys = xs"
proof -
  assume a: "take (Suc (length xs)) ys = xs @ [x]"
  have "take (length xs) ys = take (length xs) (take (Suc (length xs)) ys)"
    by simp
  also have "\<dots> = xs"
    unfolding a by simp
  finally show ?thesis .
qed

lemma reconcileFrom_prefix:
  "reconcileFrom done todo g = Inr (offs', g') \<Longrightarrow> take (length done) offs' = done"
proof (induction todo arbitrary: "done" g)
  case Nil
  then show ?case by simp
next
  case (Cons office rest)
  from reconcileFrom_step [OF Cons.prems]
  obtain x g1 where "reconcileFrom (done @ [x]) rest g1 = Inr (offs', g')"
    by blast
  from Cons.IH [OF this] have "take (Suc (length done)) offs' = done @ [x]"
    by simp
  then show ?case by (rule take_snoc_prefix)
qed

lemma reconcileFrom_nth_done:
  "reconcileFrom done todo g = Inr (offs', g') \<Longrightarrow> i < length done \<Longrightarrow> offs' ! i = done ! i"
  using reconcileFrom_prefix [of "done" todo g offs' g']
  by (metis nth_take)

lemma reconcileFrom_kept:
  "reconcileFrom done todo g = Inr (offs', g') \<Longrightarrow> k < length todo
     \<Longrightarrow> truthy ((todo ! k) ''OfficeCode'') \<Longrightarrow> offs' ! (length done + k) = todo ! k"
proof (induction todo arbitrary: "done" g k)
  case Nil
  then show ?case by simp
next
  case (Cons office rest)
  show ?case
  proof (cases k)
    case 0
    with Cons.prems have r: "reconcileFrom (done @ [office]) rest g = Inr (offs', g')"
      by simp
    from reconcileFrom_nth_done [OF r, of "length done"] 0 show ?thesis
      by simp
  next
    case (Suc k')
    from reconcileFrom_step [OF Cons.prems(1)]
    obtain x g1 where r: "reconcileFrom (done @ [x]) rest g1 = Inr (offs', g')"
      by blast
    from Cons.IH [OF r, of k'] Cons.prems(2,3) Suc show ?thesis
      by simp
  qed
qed

lemma reconcileFrom_filled:
  "reconcileFrom done todo g = Inr (offs', g') \<Longrightarrow> k < length todo
     \<Longrightarrow> \<not> truthy ((todo ! k) ''OfficeCode'')
     \<Longrightarrow> \<exists>d. (todo ! k) ''OfficeDesc'' = Str d
           \<and> offs' ! (length done + k) =
               generatedCodeOf (take (length done + k) offs' @ drop (Suc k) todo) (todo ! k) d"
proof (induction todo arbitrary: "done" g k)
  case Nil
  then show ?case by simp
next
  case (Cons office rest)
  show ?case
  proof (cases k)
    case 0
    with Cons.prems(3) have nt: "\<not> truthy (office ''OfficeCode'')" by simp
    with Cons.prems(1) obtain d where d: "office ''OfficeDesc'' = Str d"
      by (auto split: cell.splits)
    let ?x = "generatedCodeOf (done @ rest) office d"
    from Cons.prems(1) nt d
    have r: "reconcileFrom (done @ [?x]) rest
        (AList.update d (probe (existingCodesOf (done @ office # rest)) (baseCodeOf d) (baseCodeOf d) 1) g)
        = Inr (offs', g')"
      by (simp add: Let_def generatedCodeOf_def existingCodesOf_insert)
    from reconcileFrom_nth_done [OF r, of "length done"] have "offs' ! length done = ?x"
      by simp
    moreover from reconcileFrom_prefix [OF r] have "take (length done) offs' = done"
      by (simp add: take_snoc_prefix)
    ultimately show ?thesis
      using 0 d by simp
  next
    case (Suc k')
    from reconcileFrom_step [OF Cons.prems(1)]
    obtain x g1 where r: "reconcileFrom (done @ [x]) rest g1 = Inr (offs', g')"
      by blast
    from Cons.IH [OF r, of k'] Cons.prems(2,3) Suc show ?thesis
      by simp
  qed
qed

lemma reconcileFrom_total:
  "(\<forall>r \<in> set todo. \<not> truthy (r ''OfficeCode'') \<longrightarrow> (\<exists>d. r ''OfficeDesc'' = Str d))
     \<Longrightarrow> \<exists>offs' g'. reconcileFrom done todo g = Inr (offs', g')"
proof (induction todo arbitrary: "done" g)
  case Nil
  then show ?case by simp
next
  case (Cons office rest)
  show ?case
  proof (cases "truthy (office ''OfficeCode'')")
    case True
    with Cons show ?thesis by simp
  next
    case False
    with Cons.prems obtain d where "office ''OfficeDesc'' = Str d" by auto
    with False Cons show ?thesis by (simp add: Let_def)
  qed
qed

lemma reconcile_kept:
  "reconcile offices = Inr (offices', generated) \<Longrightarrow> k < length offices
     \<Longrightarrow> truthy ((offices ! k) ''OfficeCode'') \<Longrightarrow> offices' ! k = offices ! k"
  using reconcileFrom_kept [of "[]" offices "[]" offices' generated k]
  by (simp add: reconcile_def)

lemma reconcile_filled:
  "reconcile offices = Inr (offices', generated) \<Longrightarrow> k < length offices
     \<Longrightarrow> \<not> truthy ((offices ! k) ''OfficeCode'')
     \<Longrightarrow> \<exists>d. (offices ! k) ''OfficeDesc'' = Str d
           \<and> offices' ! k = generatedCodeOf (take k offices' @ drop (Suc k) offices) (offices ! k) d"
  using reconcileFrom_filled [of "[]" offices "[]" offices' generated k]
  by (simp add: reconcile_def)

lemma reconcile_length:
  "reconcile offices = Inr (offices', generated) \<Longrightarrow> length offices' = length offices"
  using reconcileFrom_length [of "[]" offices "[]" offices' generated]
  by (simp add: reconcile_def)

lemma reconciledCodes_Inr:
  "reconciledCodes offices = Inr (codes, generated)
     \<Longrightarrow> \<exists>offices'. reconcile offices = Inr (offices', generated) \<and> codesOf offices' = codes"
  by (auto simp: reconciledCodes_def split: sum.splits)

lemma existingCodesOf_codesOf: "existingCodesOf xs = filter truthy (codesOf xs)"
  by (simp add: existingCodesOf_def codesOf_def)



lemma codesOf_nth: "k < length xs \<Longrightarrow> (xs ! k) ''OfficeCode'' = codesOf xs ! k"
  by (simp add: codesOf_def)

subsection \<open>The base candidate\<close>




subsection \<open>The counter suffix\<close>

text \<open>
  Claim C6 says that the base candidate \<open>ACMECORP\<close>, colliding with the existing
  code \<open>ACMECORP\<close>, is reconciled to \<open>ACMECOR01\<close>. The first eight characters of
  \<open>ACMECORP\<close> are the whole string: the code gives \<open>ACMECORP01\<close>.
\<close>

theorem probe_suffix_counterexample:
  "probe [Str ''ACMECORP''] ''ACMECORP'' ''ACMECORP'' 1 = ''ACMECORP01''
   \<and> reconciledCodes [officeRow (Str ''ACMECORP'') (Str ''Acme Corporation''),
                      officeRow Null (Str ''Acme Corp'')] =
       Inr ([Str ''ACMECORP'', Str ''ACMECORP01''], [(''Acme Corp'', ''ACMECORP01'')])"
  by code_simp

text \<open>
  Claim C6, amended. When the base candidate is among the existing codes, the loop
  returns the first eight characters of the base candidate followed by the decimal
  digits of a counter \<open>k\<close>, padded with a zero to two characters; \<open>k\<close> is the least
  counter from 1 on whose candidate is not among the existing codes: every smaller
  one collides. Up to 99 the suffix has exactly two characters. For the base
  candidate \<open>ACMECORP\<close> and the existing code \<open>ACMECORP\<close> the result is
  \<open>ACMECORP01\<close>.
\<close>

theorem probe_appends_counter:
  assumes "Str baseCode \<in> set existingCodes"
  shows "\<exists>k\<ge>1. probe existingCodes baseCode baseCode 1 = take 8 baseCode @ padStart2 (toString k)
          \<and> Str (take 8 baseCode @ padStart2 (toString k)) \<notin> set existingCodes
          \<and> (\<forall>j. 1 \<le> j \<and> j < k \<longrightarrow> Str (take 8 baseCode @ padStart2 (toString j)) \<in> set existingCodes)
          \<and> (k < 100 \<longrightarrow> length (padStart2 (toString k)) = 2)"
  using probe_collision [OF assms] length_padStart2
  unfolding candidate_def by blast

theorem probe_appends_counter_witness:
  "probe [Str ''ACMECORP''] ''ACMECORP'' ''ACMECORP'' 1 = take 8 ''ACMECORP'' @ padStart2 (toString 1)
   \<and> take 8 ''ACMECORP'' @ padStart2 (toString 1) = ''ACMECORP01''"
proof -
  have m: "Str ''ACMECORP'' \<in> set [Str ''ACMECORP'']" by simp
  from probe_appends_counter [OF m] obtain k where k: "1 \<le> k"
    "probe [Str ''ACMECORP''] ''ACMECORP'' ''ACMECORP'' 1 = take 8 ''ACMECORP'' @ padStart2 (toString k)"
    "\<forall>j. 1 \<le> j \<and> j < k \<longrightarrow> Str (take 8 ''ACMECORP'' @ padStart2 (toString j)) \<in> set [Str ''ACMECORP'']"
    by blast
  have c1: "take 8 ''ACMECORP'' @ padStart2 (toString 1) = ''ACMECORP01''"
    by code_simp
  have "\<not> 1 < k"
  proof
    assume "1 < k"
    with k(3) have "Str (take 8 ''ACMECORP'' @ padStart2 (toString 1)) \<in> set [Str ''ACMECORP'']"
      by simp
    then show False unfolding c1 by simp
  qed
  with k(1) have "k = 1" by simp
  with k(2) c1 show ?thesis by simp
qed

subsection \<open>Unique codes after reconciliation\<close>

lemma distinct_filter_nth:
  assumes "distinct (filter P ys)" and "i < j" and "j < length ys" and "P (ys ! i)" and "P (ys ! j)"
  shows "ys ! i \<noteq> ys ! j"
proof -
  have "ys = take j ys @ ys ! j # drop (Suc j) ys"
    using assms(3) by (simp add: id_take_nth_drop [symmetric])
  then have "filter P ys = filter P (take j ys) @ ys ! j # filter P (drop (Suc j) ys)"
    using assms(5) by (metis filter.simps(2) filter_append)
  with assms(1) have "ys ! j \<notin> set (filter P (take j ys))"
    by (metis distinct_append distinct.simps(2) disjoint_iff list.set_intros(1))
  moreover have "ys ! i \<in> set (take j ys)"
    using assms(2,3) by (metis length_take less_imp_le_nat min.absorb2 nth_mem nth_take)
  ultimately show ?thesis
    using assms(4) by auto
qed

lemma existing_before:
  assumes "i < j" and "j \<le> length xs" and "truthy ((xs ! i) ''OfficeCode'')"
  shows "(xs ! i) ''OfficeCode'' \<in> set (existingCodesOf (take j xs @ ys))"
proof -
  have "xs ! i \<in> set (take j xs)"
    using assms(1,2) by (metis length_take min.absorb2 nth_mem nth_take)
  then show ?thesis
    using assms(3) by (auto simp: existingCodesOf_def)
qed

lemma existing_after:
  assumes "i < j" and "j < length xs" and "truthy ((xs ! j) ''OfficeCode'')"
  shows "(xs ! j) ''OfficeCode'' \<in> set (existingCodesOf (zs @ drop (Suc i) xs))"
proof -
  have "xs ! j \<in> set (drop (Suc i) xs)"
    using assms(1,2) by (auto simp: in_set_conv_nth intro!: exI [of _ "j - Suc i"])
  then show ?thesis
    using assms(3) by (auto simp: existingCodesOf_def)
qed

lemma length_existingCodesOf: "length (existingCodesOf xs) \<le> length xs"
  by (simp add: existingCodesOf_def le_trans [OF length_filter_le])

lemma distinct_filterI:
  assumes "\<forall>a b. a < b \<and> b < length ys \<and> P (ys ! a) \<and> P (ys ! b) \<longrightarrow> ys ! a \<noteq> ys ! b"
  shows "distinct (filter P ys)"
  using assms
proof (induction ys)
  case Nil
  then show ?case by simp
next
  case (Cons y ys)
  have "\<forall>a b. a < b \<and> b < length ys \<and> P (ys ! a) \<and> P (ys ! b) \<longrightarrow> ys ! a \<noteq> ys ! b"
  proof (intro allI impI)
    fix a b
    assume "a < b \<and> b < length ys \<and> P (ys ! a) \<and> P (ys ! b)"
    then show "ys ! a \<noteq> ys ! b"
      using Cons.prems [rule_format, of "Suc a" "Suc b"] by simp
  qed
  then have rest: "distinct (filter P ys)"
    by (rule Cons.IH)
  have "y \<notin> set (filter P ys)" if "P y"
  proof
    assume "y \<in> set (filter P ys)"
    then obtain b where "b < length ys" "ys ! b = y"
      by (auto simp: in_set_conv_nth)
    with that Cons.prems [rule_format, of 0 "Suc b"] show False by simp
  qed
  with rest show ?case by simp
qed

text \<open>
  What the gate of the import gives the reconciler: when the validation has no
  critical error, the office codes that are present and are not sentinel strings
  are pairwise distinct.
\<close>

lemma validated_codes_distinct:
  assumes "filter critical (validateOfficeData offices off) = []"
  shows "distinct (filter (\<lambda>c. \<not> isSentinel c) (existingCodesOf offices))"
proof -
  have "distinct (filter (\<lambda>c. truthy c \<and> \<not> isSentinel c) (codesOf offices))"
  proof (rule distinct_filterI, intro allI impI)
    fix i j
    assume a: "i < j \<and> j < length (codesOf offices)
        \<and> (truthy (codesOf offices ! i) \<and> \<not> isSentinel (codesOf offices ! i))
        \<and> (truthy (codesOf offices ! j) \<and> \<not> isSentinel (codesOf offices ! j))"
    then have ij: "i < j" and j: "j < length (codesOf offices)"
      and pj: "truthy (codesOf offices ! j) \<and> \<not> isSentinel (codesOf offices ! j)"
      by simp_all
    show "codesOf offices ! i \<noteq> codesOf offices ! j"
    proof
      assume eq: "codesOf offices ! i = codesOf offices ! j"
      have j': "j < length offices" using j by (simp add: codesOf_def)
      have "duplicateError (j + off) ((offices ! j) ''OfficeCode'') \<in> set (validateOfficeData offices off)"
        using ij j' eq pj by (intro validate_duplicate [of i]) (simp_all add: codesOf_def)
      then have "duplicateError (j + off) ((offices ! j) ''OfficeCode'')
          \<in> set (filter critical (validateOfficeData offices off))"
        by (simp add: critical_duplicateError)
      with assms show False by simp
    qed
  qed
  then show ?thesis
    by (simp add: existingCodesOf_codesOf conj_commute)
qed

text \<open>
  Claim C7 says that after reconciliation no two records carry equal codes. The
  validator skips the records with a sentinel code, duplicates included, so a batch
  with the code \<open>Data\<close> twice passes validation without any error and keeps both.
\<close>

theorem sentinel_duplicates_survive_counterexample:
  "validateOfficeData (normalizeAndFilter
       [officeRow (Str ''Data'') (Str ''North Depot''), officeRow (Str ''Data'') (Str ''South Depot'')]) 2 = []
   \<and> reconciledCodes (normalizeAndFilter
       [officeRow (Str ''Data'') (Str ''North Depot''), officeRow (Str ''Data'') (Str ''South Depot'')]) =
       Inr ([Str ''Data'', Str ''Data''], [])"
  by code_simp

text \<open>
  Claim C7, amended. For a batch of fewer than 100 records whose present office
  codes are pairwise distinct (the sentinel codes included), and in which every
  record without a code has a string description whose first ten characters are
  ASCII and hold a letter or digit: the reconciliation returns, the records that
  had a code are unchanged, every record that had none has a non-empty string code
  of at most ten characters and is otherwise unchanged, and no two records of the
  batch carry equal codes.
\<close>

theorem reconciled_codes_distinct:
  assumes "distinct (existingCodesOf offices)"
    and "\<forall>r \<in> set offices. \<not> truthy (r ''OfficeCode'') \<longrightarrow>
           (\<exists>d. r ''OfficeDesc'' = Str d \<and> isAscii (take 10 d) \<and> baseCodeOf d \<noteq> [])"
    and "length offices < 100"
  shows "\<exists>offices' generated. reconcile offices = Inr (offices', generated)
       \<and> length offices' = length offices
       \<and> (\<forall>k<length offices. truthy ((offices ! k) ''OfficeCode'') \<longrightarrow> offices' ! k = offices ! k)
       \<and> (\<forall>k<length offices. \<not> truthy ((offices ! k) ''OfficeCode'') \<longrightarrow>
             (\<exists>c. offices' ! k = (offices ! k)(''OfficeCode'' := Str c) \<and> c \<noteq> [] \<and> length c \<le> 10))
       \<and> distinct (codesOf offices')"
proof -
  let ?n = "length offices"
  have "\<forall>r \<in> set offices. \<not> truthy (r ''OfficeCode'') \<longrightarrow> (\<exists>d. r ''OfficeDesc'' = Str d)"
    using assms(2) by blast
  from reconcileFrom_total [OF this, of "[]" "[]"]
  obtain offs' g where r: "reconcile offices = Inr (offs', g)"
    by (auto simp: reconcile_def)
  have len: "length offs' = ?n"
    using r by (rule reconcile_length)
  have kept: "offs' ! k = offices ! k" if "k < ?n" "truthy ((offices ! k) ''OfficeCode'')" for k
    using r that by (rule reconcile_kept)
  have filled: "\<exists>c. offs' ! k = (offices ! k)(''OfficeCode'' := Str c) \<and> c \<noteq> [] \<and> length c \<le> 10
      \<and> Str c \<notin> set (existingCodesOf (take k offs' @ drop (Suc k) offices))"
    if k: "k < ?n" and nt: "\<not> truthy ((offices ! k) ''OfficeCode'')" for k
  proof -
    let ?E = "existingCodesOf (take k offs' @ drop (Suc k) offices)"
    from reconcile_filled [OF r k nt] obtain d where d: "(offices ! k) ''OfficeDesc'' = Str d"
      and x: "offs' ! k = generatedCodeOf (take k offs' @ drop (Suc k) offices) (offices ! k) d"
      by blast
    have "offices ! k \<in> set offices" using k by simp
    with assms(2) nt d have b: "baseCodeOf d \<noteq> []" and asc: "isAscii (take 10 d)" by auto
    have "length ?E \<le> length (take k offs' @ drop (Suc k) offices)"
      by (rule length_existingCodesOf)
    also have "\<dots> < 99"
      using k len assms(3) by simp
    finally have "length ?E < 99" .
    then have "length (probe ?E (baseCodeOf d) (baseCodeOf d) 1) \<le> 10"
      using length_baseCodeOf_ascii [OF asc] by (rule probe_length [rotated])
    moreover have "probe ?E (baseCodeOf d) (baseCodeOf d) 1 \<noteq> []"
      using b by (rule probe_nonempty)
    moreover have "Str (probe ?E (baseCodeOf d) (baseCodeOf d) 1) \<notin> set ?E"
      by (rule probe_not_existing)
    ultimately show ?thesis
      using x unfolding generatedCodeOf_def by blast
  qed
  have code_truthy: "truthy ((offs' ! k) ''OfficeCode'')" if "k < ?n" for k
  proof (cases "truthy ((offices ! k) ''OfficeCode'')")
    case True
    with kept [OF that] show ?thesis by simp
  next
    case False
    from filled [OF that False] show ?thesis by auto
  qed
  have differ: "(offs' ! i) ''OfficeCode'' \<noteq> (offs' ! j) ''OfficeCode''" if ij: "i < j" and j: "j < ?n" for i j
  proof (cases "truthy ((offices ! j) ''OfficeCode'')")
    case False
    from filled [OF j False] obtain c where c: "(offs' ! j) ''OfficeCode'' = Str c"
      "Str c \<notin> set (existingCodesOf (take j offs' @ drop (Suc j) offices))"
      by auto
    have "(offs' ! i) ''OfficeCode'' \<in> set (existingCodesOf (take j offs' @ drop (Suc j) offices))"
      using ij j len code_truthy [of i] by (intro existing_before) simp_all
    with c show ?thesis by auto
  next
    case tj: True
    show ?thesis
    proof (cases "truthy ((offices ! i) ''OfficeCode'')")
      case False
      have i: "i < ?n" using ij j by simp
      from filled [OF i False] obtain c where c: "(offs' ! i) ''OfficeCode'' = Str c"
        "Str c \<notin> set (existingCodesOf (take i offs' @ drop (Suc i) offices))"
        by auto
      have "(offices ! j) ''OfficeCode'' \<in> set (existingCodesOf (take i offs' @ drop (Suc i) offices))"
        using ij j tj by (rule existing_after)
      with c kept [OF j tj] show ?thesis by auto
    next
      case ti: True
      have i: "i < ?n" using ij j by simp
      have "codesOf offices ! i \<noteq> codesOf offices ! j"
        using assms(1) ij j ti tj
        by (intro distinct_filter_nth [where P = truthy])
           (simp_all add: existingCodesOf_def codesOf_def)
      then show ?thesis
        using kept [OF i ti] kept [OF j tj] i j by (simp add: codesOf_def)
    qed
  qed
  have "distinct (codesOf offs')"
  proof (subst distinct_conv_nth, intro allI impI)
    fix i j
    assume "i < length (codesOf offs')" "j < length (codesOf offs')" "i \<noteq> j"
    then have i: "i < ?n" and j: "j < ?n" and "i < j \<or> j < i"
      using len by (auto simp: codesOf_def)
    then show "codesOf offs' ! i \<noteq> codesOf offs' ! j"
      using differ [of i j] differ [of j i] len by (auto simp: codesOf_def)
  qed
  moreover have "\<forall>k<?n. \<not> truthy ((offices ! k) ''OfficeCode'') \<longrightarrow>
             (\<exists>c. offs' ! k = (offices ! k)(''OfficeCode'' := Str c) \<and> c \<noteq> [] \<and> length c \<le> 10)"
    using filled by blast
  moreover have "\<forall>k<?n. truthy ((offices ! k) ''OfficeCode'') \<longrightarrow> offs' ! k = offices ! k"
    using kept by blast
  ultimately show ?thesis
    using r len by blast
qed

text \<open>
  An explicit code, a sentinel code and two descriptions with the same base
  candidate.
\<close>

theorem reconciled_codes_distinct_witness:
  "\<exists>offices' generated.
     reconcile [officeRow (Str ''ACMECORP'') (Str ''Acme Corporation''), officeRow Null (Str ''Acme Corp''),
                officeRow (Str ''Data'') (Str ''Data Centre''), officeRow Null (Str ''Acme Corp.'')]
       = Inr (offices', generated)
     \<and> codesOf offices' = [Str ''ACMECORP'', Str ''ACMECORP01'', Str ''Data'', Str ''ACMECORP02'']
     \<and> distinct (codesOf offices')"
proof -
  let ?offs = "[officeRow (Str ''ACMECORP'') (Str ''Acme Corporation''), officeRow Null (Str ''Acme Corp''),
                officeRow (Str ''Data'') (Str ''Data Centre''), officeRow Null (Str ''Acme Corp.'')]"
  have h1: "distinct (existingCodesOf ?offs)"
    by code_simp
  have b: "baseCodeOf ''Acme Corp'' = ''ACMECORP''" "baseCodeOf ''Acme Corp.'' = ''ACMECORP''"
    by code_simp+
  have a: "isAscii (take 10 ''Acme Corp'')" "isAscii (take 10 ''Acme Corp.'')"
    by code_simp+
  have h2: "\<forall>r \<in> set ?offs. \<not> truthy (r ''OfficeCode'') \<longrightarrow>
           (\<exists>d. r ''OfficeDesc'' = Str d \<and> isAscii (take 10 d) \<and> baseCodeOf d \<noteq> [])"
    using a by (simp add: officeRow_def rowOf_def b)
  have h3: "length ?offs < 100"
    by simp
  have e: "reconciledCodes ?offs =
      Inr ([Str ''ACMECORP'', Str ''ACMECORP01'', Str ''Data'', Str ''ACMECORP02''],
           [(''Acme Corp'', ''ACMECORP01''), (''Acme Corp.'', ''ACMECORP02'')])"
    by code_simp
  from reconciled_codes_distinct [OF h1 h2 h3] obtain offices' generated
    where r: "reconcile ?offs = Inr (offices', generated)" and d: "distinct (codesOf offices')"
    by blast
  from e r have "codesOf offices' = [Str ''ACMECORP'', Str ''ACMECORP01'', Str ''Data'', Str ''ACMECORP02'']"
    by (simp add: reconciledCodes_def)
  with r d show ?thesis by blast
qed

text \<open>
  Outside these hypotheses: a description with a sharp s among its first ten
  characters can give a longer code (\<open>Gro\<close>, sharp s, \<open>stra\<close>, sharp s, \<open>e\<close>
  gives twelve characters); two descriptions without a letter or digit both get the
  empty code, which the existing codes never contain; and when the base candidate
  and the candidates of the counters 1 to 99 are all taken, the suffix has three
  digits.
\<close>

lemma sharp_s_lengthens_code:
  "reconciledCodes [officeRow Null (Str (''Gro'' @ [CHR 0xDF] @ ''stra'' @ [CHR 0xDF] @ ''e''))] =
     Inr ([Str ''GROSSSTRASSE''],
          [(''Gro'' @ [CHR 0xDF] @ ''stra'' @ [CHR 0xDF] @ ''e'', ''GROSSSTRASSE'')])"
  by code_simp

lemma sharp_s_base_code:
  "baseCodeOf (''Stra'' @ [CHR 0xDF] @ ''e Nord'') = ''STRASSENOR''"
  by code_simp

lemma empty_generated_codes_collide:
  "reconciledCodes [officeRow Null (Str ''!!!''), officeRow Null (Str ''???'')] =
     Inr ([Str [], Str []], [(''!!!'', []), (''???'', [])])"
  by code_simp

lemma length_toString_ge3: "100 \<le> n \<Longrightarrow> 3 \<le> length (toString n)"
proof -
  assume n: "100 \<le> n"
  then have a: "\<not> n < 10" and b: "\<not> n div 10 < 10"
    by simp_all
  have "toString n = toString (n div 10) @ [digit_char (n mod 10)]"
    using a by (subst toString.simps) simp
  moreover have "toString (n div 10) = toString (n div 10 div 10) @ [digit_char (n div 10 mod 10)]"
    using b by (subst toString.simps) simp
  moreover have "1 \<le> length (toString (n div 10 div 10))"
    using toString_nonempty [of "n div 10 div 10"] by (simp add: Suc_le_eq)
  ultimately show ?thesis by simp
qed

lemma counter_overflow:
  assumes "Str b \<in> set E" and "\<forall>j. 1 \<le> j \<and> j < 100 \<longrightarrow> Str (candidate b j) \<in> set E"
    and "8 \<le> length b"
  shows "10 < length (probe E b b 1)"
proof -
  from probe_collision [OF assms(1)] obtain k where k: "1 \<le> k" "probe E b b 1 = candidate b k"
    "Str (candidate b k) \<notin> set E"
    by auto
  have "\<not> k < 100"
    using k(1,3) assms(2) by auto
  then have "3 \<le> length (toString k)"
    by (intro length_toString_ge3) simp
  then have "3 \<le> length (padStart2 (toString k))"
    by (simp add: padStart2_def)
  then show ?thesis
    using k(2) assms(3) by (simp add: candidate_def)
qed

subsection \<open>Records with a sentinel code\<close>



end
